theory Spec2Isabelle
  imports Main "HOL-Library.AList"
begin

section \<open>Values and node descriptors (jsx-runtime.ts, part 1)\<close>

text \<open>
  The runtime is untyped at run time, so the values it inspects with \<^verbatim>\<open>typeof\<close>,
  \<^verbatim>\<open>===\<close> and truthiness are one datatype. Numbers are the integers plus \<^verbatim>\<open>NaN\<close>
  (the only number that is not \<^verbatim>\<open>===\<close> to itself); functions and objects are
  compared by reference, so they carry a reference number. An object also carries
  its own enumerable entries, in \<^verbatim>\<open>Object.entries\<close> order.
\<close>

datatype jsval =
    Undefined
  | Null
  | Bool bool
  | Num int
  | NaN
  | Str string
  | Func nat
  | Obj nat "(string \<times> jsval) list"

text \<open>\<^verbatim>\<open>a === b\<close>\<close>

fun strict_eq :: "jsval \<Rightarrow> jsval \<Rightarrow> bool" where
  "strict_eq Undefined Undefined = True"
| "strict_eq Null Null = True"
| "strict_eq (Bool a) (Bool b) = (a = b)"
| "strict_eq (Num a) (Num b) = (a = b)"
| "strict_eq (Str a) (Str b) = (a = b)"
| "strict_eq (Func a) (Func b) = (a = b)"
| "strict_eq (Obj a _) (Obj b _) = (a = b)"
| "strict_eq _ _ = False"

text \<open>The truthiness test of \<^verbatim>\<open>if (value)\<close>.\<close>

fun truthy :: "jsval \<Rightarrow> bool" where
  "truthy Undefined = False"
| "truthy Null = False"
| "truthy (Bool b) = b"
| "truthy (Num n) = (n \<noteq> 0)"
| "truthy NaN = False"
| "truthy (Str s) = (s \<noteq> [])"
| "truthy (Func _) = True"
| "truthy (Obj _ _) = True"

text \<open>
  \<^verbatim>\<open>VNode.type\<close> is a tag name or a component function. A component function is
  known to the runtime by its reference only, which is the number here.
\<close>

datatype kind = Tag string | Comp nat

text \<open>
  \<^verbatim>\<open>interface VNode { type; props; children }\<close>. The entries of \<^verbatim>\<open>children\<close> are
  what \<^verbatim>\<open>createElement\<close> can be handed: \<^verbatim>\<open>undefined\<close>, \<^verbatim>\<open>null\<close>, strings, numbers,
  descriptors and arrays of these.
\<close>

datatype vnode = VNode (vtype: kind) (vprops: "(string \<times> jsval) list") (vchildren: "child list")
  and child =
      CUndefined
    | CNull
    | CStr string
    | CNum int
    | CNode vnode
    | CArray "child list"

section \<open>The element factory (part 2)\<close>

text \<open>\<^verbatim>\<open>Array.prototype.flat()\<close> with its default depth 1.\<close>

fun flat :: "child list \<Rightarrow> child list" where
  "flat [] = []"
| "flat (CArray xs # rest) = xs @ flat rest"
| "flat (c # rest) = c # flat rest"

text \<open>
  \<^verbatim>\<open>createElement(type, props, ...children)\<close>; \<^verbatim>\<open>props\<close> is an object or \<^verbatim>\<open>null\<close>,
  and an object is always truthy, so \<^verbatim>\<open>props || {}\<close> replaces \<^verbatim>\<open>null\<close> only.
\<close>

definition createElement :: "kind \<Rightarrow> (string \<times> jsval) list option \<Rightarrow> child list \<Rightarrow> vnode" where
  "createElement type props children =
     (let finalProps = (case props of None \<Rightarrow> [] | Some p \<Rightarrow> p);
          finalChildren = filter (\<lambda>child. child \<noteq> CNull \<and> child \<noteq> CUndefined) (flat children)
      in VNode type finalProps finalChildren)"

definition createFragment :: "(string \<times> jsval) list option \<Rightarrow> child list \<Rightarrow> vnode" where
  "createFragment props children =
     createElement (Tag ''fragment'') (Some (case props of None \<Rightarrow> [] | Some p \<Rightarrow> p)) children"

section \<open>The host tree\<close>

text \<open>
  The native nodes live in a store, a node's identity being its index there:
  \<^verbatim>\<open>replaceChild\<close>, \<^verbatim>\<open>parentNode\<close> and \<^verbatim>\<open>innerHTML = ''\<close> depend on which node is
  which and on where it hangs. A node records what the runtime does to it:
  \<^verbatim>\<open>setAttribute\<close> calls in \<open>attributes\<close>, assignments \<^verbatim>\<open>element[key] = value\<close> in
  \<open>properties\<close> and \<^verbatim>\<open>addEventListener\<close> calls in \<open>listeners\<close>, each under the name
  the runtime passes. \<open>styleProps\<close> is the element's style object: the
  declarations it holds, each under its CSS property name. What the host derives
  from these afterwards (case folding of attribute names, reflection of a
  property into an attribute, the text of the \<^verbatim>\<open>style\<close> attribute) and its refusal
  of ill-formed names and values are outside this program and not modelled.
\<close>

datatype node_kind = TextNode string | ElementNode string | FragmentNode

record dom_node =
  nodeKind :: node_kind
  attributes :: "(string \<times> string) list"
  properties :: "(string \<times> jsval) list"
  styleProps :: "(string \<times> jsval) list"
  listeners :: "(string \<times> jsval) list"
  childNodes :: "nat list"
  parentNode :: "nat option"

definition new_node :: "node_kind \<Rightarrow> dom_node" where
  "new_node k = \<lparr> nodeKind = k, attributes = [], properties = [], styleProps = [],
                  listeners = [], childNodes = [], parentNode = None \<rparr>"

section \<open>The runtime's state (part 3)\<close>

datatype exn = TypeError | Thrown jsval

text \<open>
  The module-level variables, and the host's nodes. \<^verbatim>\<open>componentStates\<close> is a
  \<^verbatim>\<open>Map\<close> keyed by \<^verbatim>\<open>currentComponent\<close>, which is a component function or
  \<^verbatim>\<open>null\<close> (\<open>None\<close>).
\<close>

record rt =
  currentComponent :: "nat option"
  componentStates :: "nat option \<Rightarrow> jsval list option"
  stateIndex :: nat
  rootVNode :: "vnode option"
  rootContainer :: "nat option"
  renderedNode :: "nat option"
  nodes :: "dom_node list"

definition init_rt :: rt where
  "init_rt = \<lparr> currentComponent = None, componentStates = (\<lambda>_. None), stateIndex = 0,
               rootVNode = None, rootContainer = None, renderedNode = None, nodes = [] \<rparr>"

text \<open>
  Reading and writing a JavaScript array by index: a read past the end is
  \<^verbatim>\<open>undefined\<close>, a write past the end extends the array, the gap reading as
  \<^verbatim>\<open>undefined\<close>.
\<close>

definition js_read :: "jsval list \<Rightarrow> nat \<Rightarrow> jsval" where
  "js_read xs i = (if i < length xs then xs ! i else Undefined)"

definition js_write :: "jsval list \<Rightarrow> nat \<Rightarrow> jsval \<Rightarrow> jsval list" where
  "js_write xs i v =
     (if i < length xs then xs[i := v] else xs @ replicate (i - length xs) Undefined @ [v])"

text \<open>
  The getter and the setter that \<^verbatim>\<open>useState\<close> returns are closures over the
  array \<^verbatim>\<open>states\<close> and the number \<^verbatim>\<open>index\<close>. The array is the one stored in
  \<^verbatim>\<open>componentStates\<close> under \<^verbatim>\<open>component\<close>, and an entry of that map is never
  replaced by another array, so the pair of the key and the index stands for the
  two closures.
\<close>

type_synonym hook = "nat option \<times> nat"

definition slot :: "rt \<Rightarrow> hook \<Rightarrow> jsval" where
  "slot s h = (case componentStates s (fst h) of None \<Rightarrow> Undefined | Some states \<Rightarrow> js_read states (snd h))"

definition write_slot :: "hook \<Rightarrow> jsval \<Rightarrow> rt \<Rightarrow> rt" where
  "write_slot h v s =
     s\<lparr>componentStates := (componentStates s)(fst h \<mapsto>
          js_write (case componentStates s (fst h) of None \<Rightarrow> [] | Some states \<Rightarrow> states) (snd h) v)\<rparr>"

definition useState :: "jsval \<Rightarrow> rt \<Rightarrow> hook \<times> rt" where
  "useState initialValue s =
     (let component = currentComponent s;
          s1 = (if componentStates s component = None
                then s\<lparr>componentStates := (componentStates s)(component \<mapsto> [])\<rparr> else s);
          index = stateIndex s1;
          s2 = (if strict_eq (slot s1 (component, index)) Undefined
                then write_slot (component, index) initialValue s1 else s1)
      in ((component, index), s2\<lparr>stateIndex := stateIndex s2 + 1\<rparr>))"

text \<open>\<^verbatim>\<open>const getter = () => states[index]\<close>\<close>

definition getter :: "hook \<Rightarrow> rt \<Rightarrow> jsval" where
  "getter h s = slot s h"


section \<open>Strings\<close>

text \<open>\<^verbatim>\<open>String(n)\<close> for an integer \<open>n\<close>: its decimal digits.\<close>

definition digit_char :: "nat \<Rightarrow> char" where
  "digit_char d = ''0123456789'' ! d"

fun show_nat :: "nat \<Rightarrow> string" where
  "show_nat n = (if n < 10 then [digit_char n] else show_nat (n div 10) @ [digit_char (n mod 10)])"

declare show_nat.simps [simp del]

definition show_int :: "int \<Rightarrow> string" where
  "show_int i = (if i < 0 then CHR ''-'' # show_nat (nat (- i)) else show_nat (nat i))"

text \<open>\<^verbatim>\<open>toLowerCase\<close> and the class \<^verbatim>\<open>[A-Z]\<close>, on the ASCII letters.\<close>

definition is_upper :: "char \<Rightarrow> bool" where
  "is_upper c = (let n = (of_char c :: nat) in 65 \<le> n \<and> n \<le> 90)"

definition lower_char :: "char \<Rightarrow> char" where
  "lower_char c = (if is_upper c then char_of ((of_char c :: nat) + 32) else c)"

definition toLowerCase :: "string \<Rightarrow> string" where
  "toLowerCase str = map lower_char str"

text \<open>\<^verbatim>\<open>key.startsWith('on')\<close>\<close>

definition startsWith :: "string \<Rightarrow> string \<Rightarrow> bool" where
  "startsWith str pre = (take (length pre) str = pre)"

text \<open>\<^verbatim>\<open>styleKey.replace(/([A-Z])/g, '-$1').toLowerCase()\<close>\<close>

definition cssKey_of :: "string \<Rightarrow> string" where
  "cssKey_of styleKey =
     toLowerCase (concat (map (\<lambda>c. if is_upper c then [CHR ''-'', c] else [c]) styleKey))"

section \<open>User code\<close>

text \<open>
  The functions the runtime calls but does not define: a component function
  (called with the props, it returns a descriptor or throws, and may call
  \<^verbatim>\<open>useState\<close> and whatever else on the way, so it is a function of the whole
  state), a function value called as \<^verbatim>\<open>_onMounted\<close> callback with the element,
  and the text \<^verbatim>\<open>String\<close> gives for a function value.
\<close>

record env =
  component :: "nat \<Rightarrow> (string \<times> jsval) list \<Rightarrow> rt \<Rightarrow> (exn + child) \<times> rt"
  callback :: "nat \<Rightarrow> nat \<Rightarrow> rt \<Rightarrow> (exn + unit) \<times> rt"
  fn_source :: "nat \<Rightarrow> string"

text \<open>\<^verbatim>\<open>String(value)\<close>\<close>

fun String_of :: "env \<Rightarrow> jsval \<Rightarrow> string" where
  "String_of env Undefined = ''undefined''"
| "String_of env Null = ''null''"
| "String_of env (Bool b) = (if b then ''true'' else ''false'')"
| "String_of env (Num n) = show_int n"
| "String_of env NaN = ''NaN''"
| "String_of env (Str s) = s"
| "String_of env (Func k) = fn_source env k"
| "String_of env (Obj _ _) = ''[object Object]''"

section \<open>Host operations\<close>

definition create_node :: "node_kind \<Rightarrow> rt \<Rightarrow> nat \<times> rt" where
  "create_node k s = (length (nodes s), s\<lparr>nodes := nodes s @ [new_node k]\<rparr>)"

definition update_node :: "nat \<Rightarrow> (dom_node \<Rightarrow> dom_node) \<Rightarrow> rt \<Rightarrow> rt" where
  "update_node i f s = s\<lparr>nodes := (nodes s)[i := f (nodes s ! i)]\<rparr>"

definition setAttribute :: "nat \<Rightarrow> string \<Rightarrow> string \<Rightarrow> rt \<Rightarrow> rt" where
  "setAttribute e name v = update_node e (\<lambda>n. n\<lparr>attributes := AList.update name v (attributes n)\<rparr>)"

definition setProperty :: "nat \<Rightarrow> string \<Rightarrow> jsval \<Rightarrow> rt \<Rightarrow> rt" where
  "setProperty e name v = update_node e (\<lambda>n. n\<lparr>properties := AList.update name v (properties n)\<rparr>)"

text \<open>
  \<^verbatim>\<open>element.style[name] = v\<close>. The host's style object takes the name of one of its
  attributes to the CSS property it stands for: every upper case letter becomes
  a hyphen and the lower case letter, so that \<^verbatim>\<open>backgroundColor\<close> and
  \<^verbatim>\<open>background-color\<close> are one property. The declaration is set under the
  property's name. (The host is taken to know every property so named and to
  accept every value.)
\<close>

fun css_property :: "string \<Rightarrow> string" where
  "css_property [] = []"
| "css_property (c # cs) =
     (if is_upper c then CHR ''-'' # lower_char c # css_property cs else c # css_property cs)"

definition setStyle :: "nat \<Rightarrow> string \<Rightarrow> jsval \<Rightarrow> rt \<Rightarrow> rt" where
  "setStyle e name v =
     update_node e (\<lambda>n. n\<lparr>styleProps := AList.update (css_property name) v (styleProps n)\<rparr>)"

text \<open>A listener already registered for the event is not registered twice.\<close>

definition addEventListener :: "nat \<Rightarrow> string \<Rightarrow> jsval \<Rightarrow> rt \<Rightarrow> rt" where
  "addEventListener e name fn =
     update_node e (\<lambda>n. if (name, fn) \<in> set (listeners n) then n
                         else n\<lparr>listeners := listeners n @ [(name, fn)]\<rparr>)"

text \<open>Taking a node out of its parent, if it has one.\<close>

definition detach :: "nat \<Rightarrow> rt \<Rightarrow> rt" where
  "detach c s =
     (case parentNode (nodes s ! c) of
        None \<Rightarrow> s
      | Some p \<Rightarrow> update_node c (\<lambda>n. n\<lparr>parentNode := None\<rparr>)
                    (update_node p (\<lambda>n. n\<lparr>childNodes := removeAll c (childNodes n)\<rparr>) s))"

text \<open>
  The nodes that inserting \<open>c\<close> inserts: the children of \<open>c\<close> when it is a
  document fragment, else \<open>c\<close> itself.
\<close>

definition inserted :: "rt \<Rightarrow> nat \<Rightarrow> nat list" where
  "inserted s c = (if nodeKind (nodes s ! c) = FragmentNode then childNodes (nodes s ! c) else [c])"

text \<open>
  Taking what \<open>c\<close> inserts to the new parent \<open>p\<close>: a fragment is emptied and its
  children are handed over, any other node leaves its old parent.
\<close>

definition adopt :: "nat \<Rightarrow> nat \<Rightarrow> rt \<Rightarrow> rt" where
  "adopt p c s =
     (if nodeKind (nodes s ! c) = FragmentNode
      then update_node c (\<lambda>n. n\<lparr>childNodes := []\<rparr>)
             (fold (\<lambda>k. update_node k (\<lambda>n. n\<lparr>parentNode := Some p\<rparr>)) (childNodes (nodes s ! c)) s)
      else update_node c (\<lambda>n. n\<lparr>parentNode := Some p\<rparr>) (detach c s))"

text \<open>\<^verbatim>\<open>p.appendChild(c)\<close>\<close>

definition appendChild :: "nat \<Rightarrow> nat \<Rightarrow> rt \<Rightarrow> rt" where
  "appendChild p c s =
     (let new = inserted s c; s1 = adopt p c s
      in update_node p (\<lambda>n. n\<lparr>childNodes := childNodes n @ new\<rparr>) s1)"

text \<open>\<^verbatim>\<open>p.replaceChild(c, old)\<close>, \<open>old\<close> being a child of \<open>p\<close>.\<close>

definition replaceChild :: "nat \<Rightarrow> nat \<Rightarrow> nat \<Rightarrow> rt \<Rightarrow> rt" where
  "replaceChild p c old s =
     (let new = inserted s c; s1 = adopt p c s
      in update_node old (\<lambda>n. n\<lparr>parentNode := None\<rparr>)
           (update_node p (\<lambda>n. n\<lparr>childNodes :=
              concat (map (\<lambda>k. if k = old then new else [k]) (childNodes n))\<rparr>) s1))"

text \<open>\<^verbatim>\<open>c.innerHTML = ''\<close>\<close>

definition clear_children :: "nat \<Rightarrow> rt \<Rightarrow> rt" where
  "clear_children c s =
     update_node c (\<lambda>n. n\<lparr>childNodes := []\<rparr>)
       (fold (\<lambda>k. update_node k (\<lambda>n. n\<lparr>parentNode := None\<rparr>)) (childNodes (nodes s ! c)) s)"


section \<open>The renderer (part 4)\<close>

text \<open>
  The effect of one entry of \<^verbatim>\<open>Object.entries(vnode.props)\<close> on the element, in
  the order of the source's tests. \<^verbatim>\<open>typeof null\<close> is \<^verbatim>\<open>'object'\<close>, so a \<^verbatim>\<open>style\<close>
  of \<^verbatim>\<open>null\<close> reaches \<^verbatim>\<open>Object.entries(null)\<close>, which throws. The source computes
  \<^verbatim>\<open>cssKey\<close> and then assigns to \<^verbatim>\<open>element.style[styleKey]\<close>.
\<close>

definition applyStyle :: "nat \<Rightarrow> string \<times> jsval \<Rightarrow> rt \<Rightarrow> rt" where
  "applyStyle element entry s =
     (case entry of (styleKey, styleValue) \<Rightarrow>
        (let cssKey = cssKey_of styleKey in setStyle element styleKey styleValue s))"

definition applyProp :: "env \<Rightarrow> string \<Rightarrow> nat \<Rightarrow> string \<times> jsval \<Rightarrow> rt \<Rightarrow> (exn + unit) \<times> rt" where
  "applyProp env type element entry s =
     (case entry of (key, v) \<Rightarrow>
        if key = ''key'' \<or> key = ''ref'' \<or> key = ''_onMounted'' then (Inr (), s)
        else if startsWith key ''on'' then
          (let eventName = toLowerCase (drop 2 key)
           in case v of Func _ \<Rightarrow> (Inr (), addEventListener element eventName v s)
                       | _ \<Rightarrow> (Inr (), s))
        else if key = ''className'' then
          (if truthy v then (Inr (), setProperty element ''className'' v s) else (Inr (), s))
        else if key = ''style'' then
          (case v of
             Str str \<Rightarrow> (Inr (), setAttribute element ''style'' str s)
           | Obj _ entries \<Rightarrow> (Inr (), fold (applyStyle element) entries s)
           | Null \<Rightarrow> (Inl TypeError, s)
           | _ \<Rightarrow> (Inr (), s))
        else if key = ''value'' \<or> key = ''checked'' \<or> key = ''disabled'' then
          (let s1 = setProperty element key v s
           in if key = ''value'' \<and> (type = ''input'' \<or> type = ''select'' \<or> type = ''textarea'')
              then (Inr (), setAttribute element key (String_of env v) s1)
              else (Inr (), s1))
        else if v \<noteq> Null \<and> v \<noteq> Undefined \<and> v \<noteq> Bool False then
          (case v of
             Bool b \<Rightarrow> (if b then (Inr (), setAttribute element key [] s) else (Inr (), s))
           | _ \<Rightarrow> (Inr (), setAttribute element key (String_of env v) s))
        else (Inr (), s))"

text \<open>\<^verbatim>\<open>Object.entries(vnode.props).forEach(...)\<close>: a throw ends the loop.\<close>

fun applyProps :: "env \<Rightarrow> string \<Rightarrow> nat \<Rightarrow> (string \<times> jsval) list \<Rightarrow> rt \<Rightarrow> (exn + unit) \<times> rt" where
  "applyProps env type element [] s = (Inr (), s)"
| "applyProps env type element (entry # rest) s =
     (case applyProp env type element entry s of
        (Inl e, s1) \<Rightarrow> (Inl e, s1)
      | (Inr _, s1) \<Rightarrow> applyProps env type element rest s1)"

text \<open>
  \<^verbatim>\<open>if (vnode.props._onMounted && typeof vnode.props._onMounted === 'function')
  vnode.props._onMounted(element)\<close>
\<close>

definition onMounted :: "env \<Rightarrow> (string \<times> jsval) list \<Rightarrow> nat \<Rightarrow> rt \<Rightarrow> (exn + unit) \<times> rt" where
  "onMounted env props element s =
     (case map_of props ''_onMounted'' of
        Some (Func k) \<Rightarrow> callback env k element s
      | _ \<Rightarrow> (Inr (), s))"

text \<open>
  \<^verbatim>\<open>renderToDOM\<close>. A component may return a descriptor of itself, so the recursion
  need not end: the first argument bounds its depth, and \<open>None\<close> is the answer
  when the bound is reached. An exception is \<open>Inl\<close>, with the state as it was left.
  \<^verbatim>\<open>null.type\<close> throws; an array has no \<^verbatim>\<open>type\<close> and no \<^verbatim>\<open>props\<close>, so
  \<^verbatim>\<open>document.createElement(undefined)\<close> makes an element and
  \<^verbatim>\<open>Object.entries(undefined)\<close> throws.
\<close>

fun renderToDOM :: "nat \<Rightarrow> env \<Rightarrow> child \<Rightarrow> rt \<Rightarrow> ((exn + nat) \<times> rt) option"
  and appendChildren :: "nat \<Rightarrow> env \<Rightarrow> nat \<Rightarrow> child list \<Rightarrow> rt \<Rightarrow> ((exn + unit) \<times> rt) option"
where
  "renderToDOM 0 env vnode s = None"
| "renderToDOM (Suc n) env CUndefined s =
     (case create_node (TextNode []) s of (t, s1) \<Rightarrow> Some (Inr t, s1))"
| "renderToDOM (Suc n) env (CStr str) s =
     (case create_node (TextNode str) s of (t, s1) \<Rightarrow> Some (Inr t, s1))"
| "renderToDOM (Suc n) env (CNum i) s =
     (case create_node (TextNode (show_int i)) s of (t, s1) \<Rightarrow> Some (Inr t, s1))"
| "renderToDOM (Suc n) env CNull s = Some (Inl TypeError, s)"
| "renderToDOM (Suc n) env (CArray xs) s =
     (case create_node (ElementNode ''undefined'') s of (element, s1) \<Rightarrow> Some (Inl TypeError, s1))"
| "renderToDOM (Suc n) env (CNode (VNode (Comp f) props children)) s =
     (case component env f props (s\<lparr>currentComponent := Some f, stateIndex := 0\<rparr>) of
        (Inl e, s1) \<Rightarrow> Some (Inl e, s1)
      | (Inr result, s1) \<Rightarrow> renderToDOM n env result (s1\<lparr>currentComponent := None\<rparr>))"
| "renderToDOM (Suc n) env (CNode (VNode (Tag type) props children)) s =
     (if type = ''fragment'' then
        (case create_node FragmentNode s of (fragment, s1) \<Rightarrow>
           (case appendChildren n env fragment children s1 of
              None \<Rightarrow> None
            | Some (Inl e, s2) \<Rightarrow> Some (Inl e, s2)
            | Some (Inr _, s2) \<Rightarrow> Some (Inr fragment, s2)))
      else
        (case create_node (ElementNode type) s of (element, s1) \<Rightarrow>
           (case applyProps env type element props s1 of
              (Inl e, s2) \<Rightarrow> Some (Inl e, s2)
            | (Inr _, s2) \<Rightarrow>
                (case appendChildren n env element children s2 of
                   None \<Rightarrow> None
                 | Some (Inl e, s3) \<Rightarrow> Some (Inl e, s3)
                 | Some (Inr _, s3) \<Rightarrow>
                     (case onMounted env props element s3 of
                        (Inl e, s4) \<Rightarrow> Some (Inl e, s4)
                      | (Inr _, s4) \<Rightarrow> Some (Inr element, s4))))))"
| "appendChildren n env parent [] s = Some (Inr (), s)"
| "appendChildren n env parent (c # cs) s =
     (case renderToDOM n env c s of
        None \<Rightarrow> None
      | Some (Inl e, s1) \<Rightarrow> Some (Inl e, s1)
      | Some (Inr node, s1) \<Rightarrow> appendChildren n env parent cs (appendChild parent node s1))"

section \<open>Mounting and updating\<close>

text \<open>\<^verbatim>\<open>mount(vnode, container)\<close>\<close>

definition mount :: "nat \<Rightarrow> env \<Rightarrow> vnode \<Rightarrow> nat \<Rightarrow> rt \<Rightarrow> ((exn + unit) \<times> rt) option" where
  "mount n env vnode container s =
     (let s1 = s\<lparr>rootVNode := Some vnode, rootContainer := Some container\<rparr>
      in case renderToDOM n env (CNode vnode) s1 of
           None \<Rightarrow> None
         | Some (Inl e, s2) \<Rightarrow> Some (Inl e, s2)
         | Some (Inr domNode, s2) \<Rightarrow> Some (Inr (), appendChild container domNode s2))"

text \<open>
  The part of the setter after the re-render: \<^verbatim>\<open>renderedNode\<close> and
  \<^verbatim>\<open>rootContainer\<close> are read after \<^verbatim>\<open>renderToDOM\<close> has returned.
\<close>

definition attach_rendered :: "nat \<Rightarrow> rt \<Rightarrow> rt" where
  "attach_rendered newDom s =
     (let s1 = (case (case renderedNode s of None \<Rightarrow> None
                                      | Some r \<Rightarrow> map_option (\<lambda>p. (r, p)) (parentNode (nodes s ! r))) of
                  Some (r, p) \<Rightarrow> replaceChild p newDom r s
                | None \<Rightarrow> (case rootContainer s of
                             Some c \<Rightarrow> appendChild c newDom (clear_children c s)
                           | None \<Rightarrow> s))
      in s1\<lparr>renderedNode := Some newDom\<rparr>)"

text \<open>
  \<^verbatim>\<open>const setter = (newValue) => { ... }\<close>, for the closure that \<open>h\<close> stands for.
\<close>

definition setter :: "nat \<Rightarrow> env \<Rightarrow> hook \<Rightarrow> jsval \<Rightarrow> rt \<Rightarrow> ((exn + unit) \<times> rt) option" where
  "setter n env h newValue s =
     (if strict_eq (slot s h) newValue then Some (Inr (), s)
      else
        (let s1 = write_slot h newValue s
         in case (rootVNode s1, rootContainer s1) of
              (Some root, Some _) \<Rightarrow>
                (case renderToDOM n env (CNode root) (s1\<lparr>stateIndex := 0, currentComponent := None\<rparr>) of
                   None \<Rightarrow> None
                 | Some (Inl e, s2) \<Rightarrow> Some (Inl e, s2)
                 | Some (Inr newDom, s2) \<Rightarrow> Some (Inr (), attach_rendered newDom s2))
            | _ \<Rightarrow> Some (Inr (), s1)))"


section \<open>An example application\<close>

text \<open>
  A component in the manner of the repository's \<^verbatim>\<open>Counter\<close> (one \<^verbatim>\<open>useState\<close>, the
  count shown in a heading), a component that throws, and a container that
  already holds a text node. They are the concrete inputs of the examples below.
\<close>

definition Counter :: "(string \<times> jsval) list \<Rightarrow> rt \<Rightarrow> (exn + child) \<times> rt" where
  "Counter props s =
     (let initialCount = (case map_of props ''initialCount'' of
                            Some v \<Rightarrow> if truthy v then v else Num 0 | None \<Rightarrow> Num 0)
      in case useState initialCount s of
           (count, s1) \<Rightarrow>
             (Inr (CNode (createElement (Tag ''h2'') None
                     [CStr ''Count: '', (case getter count s1 of Num i \<Rightarrow> CNum i | _ \<Rightarrow> CUndefined)])),
              s1))"

definition Failing :: "(string \<times> jsval) list \<Rightarrow> rt \<Rightarrow> (exn + child) \<times> rt" where
  "Failing props s = (Inl (Thrown (Str ''failed'')), s)"

definition demo_env :: env where
  "demo_env = \<lparr> component = (\<lambda>f. if f = 0 then Counter else Failing),
                callback = (\<lambda>k element s. (Inr (), s)),
                fn_source = (\<lambda>k. ''function'') \<rparr>"

definition demo_root :: vnode where
  "demo_root = createElement (Comp 0) (Some []) []"

definition elem :: "string \<Rightarrow> nat list \<Rightarrow> nat option \<Rightarrow> dom_node" where
  "elem type kids parent = (new_node (ElementNode type))\<lparr>childNodes := kids, parentNode := parent\<rparr>"

definition text_node :: "string \<Rightarrow> nat option \<Rightarrow> dom_node" where
  "text_node str parent = (new_node (TextNode str))\<lparr>parentNode := parent\<rparr>"

definition demo_host :: rt where
  "demo_host = init_rt\<lparr>nodes := [elem ''div'' [1] None, text_node ''loading'' (Some 0)]\<rparr>"

text \<open>The states after \<^verbatim>\<open>mount\<close> and after the first update.\<close>

definition demo_mounted :: rt where
  "demo_mounted = init_rt\<lparr>
     componentStates := [Some 0 \<mapsto> [Num 0]], stateIndex := 1,
     rootVNode := Some demo_root, rootContainer := Some 0,
     nodes := [elem ''div'' [1, 2] None, text_node ''loading'' (Some 0),
               elem ''h2'' [3, 4] (Some 0), text_node ''Count: '' (Some 2), text_node ''0'' (Some 2)]\<rparr>"

definition demo_updated :: rt where
  "demo_updated = init_rt\<lparr>
     componentStates := [Some 0 \<mapsto> [Num 1]], stateIndex := 1,
     rootVNode := Some demo_root, rootContainer := Some 0, renderedNode := Some 5,
     nodes := [elem ''div'' [5] None, text_node ''loading'' None,
               elem ''h2'' [3, 4] None, text_node ''Count: '' (Some 2), text_node ''0'' (Some 2),
               elem ''h2'' [6, 7] (Some 0), text_node ''Count: '' (Some 5), text_node ''1'' (Some 5)]\<rparr>"

text \<open>
  The page then appends a footer to the container, and the counter is updated a
  second time.
\<close>

definition demo_footer :: rt where
  "demo_footer = demo_updated\<lparr>
     nodes := [elem ''div'' [5, 8] None, text_node ''loading'' None,
               elem ''h2'' [3, 4] None, text_node ''Count: '' (Some 2), text_node ''0'' (Some 2),
               elem ''h2'' [6, 7] (Some 0), text_node ''Count: '' (Some 5), text_node ''1'' (Some 5),
               text_node ''footer'' (Some 0)]\<rparr>"

definition demo_updated_again :: rt where
  "demo_updated_again = init_rt\<lparr>
     componentStates := [Some 0 \<mapsto> [Num 2]], stateIndex := 1,
     rootVNode := Some demo_root, rootContainer := Some 0, renderedNode := Some 9,
     nodes := [elem ''div'' [9, 8] None, text_node ''loading'' None,
               elem ''h2'' [3, 4] None, text_node ''Count: '' (Some 2), text_node ''0'' (Some 2),
               elem ''h2'' [6, 7] None, text_node ''Count: '' (Some 5), text_node ''1'' (Some 5),
               text_node ''footer'' (Some 0),
               elem ''h2'' [10, 11] (Some 0), text_node ''Count: '' (Some 9), text_node ''2'' (Some 9)]\<rparr>"

text \<open>The counter rendered on its own, not mounted.\<close>

definition demo_rendered :: rt where
  "demo_rendered = init_rt\<lparr>
     componentStates := [Some 0 \<mapsto> [Num 0]], stateIndex := 1,
     nodes := [elem ''h2'' [1, 2] None, text_node ''Count: '' (Some 0), text_node ''0'' (Some 0)]\<rparr>"

text \<open>The state in which the throwing component leaves the runtime.\<close>

definition demo_failed :: rt where
  "demo_failed = init_rt\<lparr>currentComponent := Some 1\<rparr>"

text \<open>
  Host elements with boolean props, with \<^verbatim>\<open>value\<close> and \<^verbatim>\<open>disabled\<close>, with a
  \<^verbatim>\<open>style\<close> object and a \<^verbatim>\<open>style\<close> string, a fragment, and an element with
  \<^verbatim>\<open>checked\<close>.
\<close>

definition demo_input_props :: "(string \<times> jsval) list" where
  "demo_input_props = [(''type'', Str ''checkbox''), (''required'', Bool True), (''hidden'', Bool False)]"

definition demo_input :: rt where
  "demo_input = init_rt\<lparr>nodes :=
     [(new_node (ElementNode ''input''))\<lparr>attributes := [(''type'', ''checkbox''), (''required'', [])]\<rparr>]\<rparr>"

definition demo_value_props :: "(string \<times> jsval) list" where
  "demo_value_props = [(''type'', Str ''text''), (''value'', Str ''abc''), (''disabled'', Bool False)]"

definition demo_value_input :: rt where
  "demo_value_input = init_rt\<lparr>nodes :=
     [(new_node (ElementNode ''input''))\<lparr>
        attributes := [(''type'', ''text''), (''value'', ''abc'')],
        properties := [(''value'', Str ''abc''), (''disabled'', Bool False)]\<rparr>]\<rparr>"




definition demo_fragment :: rt where
  "demo_fragment = init_rt\<lparr>nodes := [new_node FragmentNode]\<rparr>"

definition demo_checkbox :: rt where
  "demo_checkbox = init_rt\<lparr>nodes :=
     [(new_node (ElementNode ''input''))\<lparr>properties := [(''checked'', Bool True)]\<rparr>]\<rparr>"

text \<open>
  A component that calls its setter while it renders:

  \<^verbatim>\<open>const Eager = () => { const [count, setCount] = useState(0); setCount(1); return <p/> }\<close>

  The setter renders the root again, which calls the component again. The
  component functions of user code are a parameter of the renderer, so the
  component is given the user code that this inner render runs: \<open>eager_env k\<close>
  is the component with \<open>k\<close> levels of such calls below it, and a call below the
  last level throws, as a call too deep does; so does a setter whose render
  exceeds its bound. (In the examples the second level finds the slot at \<open>1\<close>
  already, so that its setter returns at once.)
\<close>

definition Eager :: "env \<Rightarrow> (string \<times> jsval) list \<Rightarrow> rt \<Rightarrow> (exn + child) \<times> rt" where
  "Eager env props s =
     (case useState (Num 0) s of
        (count, s1) \<Rightarrow>
          (case setter 3 env count (Num 1) s1 of
             None \<Rightarrow> (Inl (Thrown (Str ''too deep'')), s1)
           | Some (Inl e, s2) \<Rightarrow> (Inl e, s2)
           | Some (Inr _, s2) \<Rightarrow> (Inr (CNode (createElement (Tag ''p'') None [])), s2)))"

primrec eager_env :: "nat \<Rightarrow> env" where
  "eager_env 0 = \<lparr> component = (\<lambda>f props s. (Inl (Thrown (Str ''too deep'')), s)),
                    callback = (\<lambda>k element s. (Inr (), s)),
                    fn_source = (\<lambda>k. ''function'') \<rparr>"
| "eager_env (Suc k) = \<lparr> component = (\<lambda>f. Eager (eager_env k)),
                          callback = (\<lambda>k element s. (Inr (), s)),
                          fn_source = (\<lambda>k. ''function'') \<rparr>"

definition demo_eager_root :: vnode where
  "demo_eager_root = createElement (Comp 0) None []"

text \<open>
  The states after \<^verbatim>\<open>mount(<Eager/>, container)\<close> into the container that holds
  the text node, and after a later call of the component's setter with \<open>5\<close>.
\<close>

definition demo_eager_mounted :: rt where
  "demo_eager_mounted = init_rt\<lparr>
     componentStates := [Some 0 \<mapsto> [Num 1]], stateIndex := 1,
     rootVNode := Some demo_eager_root, rootContainer := Some 0, renderedNode := Some 2,
     nodes := [elem ''div'' [2, 3] None, text_node ''loading'' None,
               elem ''p'' [] (Some 0), elem ''p'' [] (Some 0)]\<rparr>"

definition demo_eager_updated :: rt where
  "demo_eager_updated = init_rt\<lparr>
     componentStates := [Some 0 \<mapsto> [Num 1]], stateIndex := 1,
     rootVNode := Some demo_eager_root, rootContainer := Some 0, renderedNode := Some 5,
     nodes := [elem ''div'' [5, 3] None, text_node ''loading'' None,
               elem ''p'' [] None, elem ''p'' [] (Some 0), elem ''p'' [] None, elem ''p'' [] (Some 0)]\<rparr>"

text \<open>
  Two instances of the counter side by side,
  \<^verbatim>\<open><div><Counter initialCount={3}/><Counter initialCount={7}/></div>\<close>, mounted
  into an empty container: the states after \<^verbatim>\<open>mount\<close>, after the setter is called
  with \<open>5\<close>, and after it is called with \<^verbatim>\<open>undefined\<close> instead. \<open>pair_nodes count b\<close>
  are the seven nodes of one rendering, from index \<open>b\<close> on, both headings showing
  \<open>count\<close>.
\<close>

definition demo_pair_root :: vnode where
  "demo_pair_root =
     createElement (Tag ''div'') None
       [CNode (createElement (Comp 0) (Some [(''initialCount'', Num 3)]) []),
        CNode (createElement (Comp 0) (Some [(''initialCount'', Num 7)]) [])]"

definition demo_pair_host :: rt where
  "demo_pair_host = init_rt\<lparr>nodes := [elem ''div'' [] None]\<rparr>"

definition pair_nodes :: "string \<Rightarrow> nat \<Rightarrow> dom_node list" where
  "pair_nodes count b =
     [elem ''div'' [b + 1, b + 4] (Some 0),
      elem ''h2'' [b + 2, b + 3] (Some b), text_node ''Count: '' (Some (b + 1)), text_node count (Some (b + 1)),
      elem ''h2'' [b + 5, b + 6] (Some b), text_node ''Count: '' (Some (b + 4)), text_node count (Some (b + 4))]"

definition demo_pair_mounted :: rt where
  "demo_pair_mounted = init_rt\<lparr>
     componentStates := [Some 0 \<mapsto> [Num 3]], stateIndex := 1,
     rootVNode := Some demo_pair_root, rootContainer := Some 0,
     nodes := elem ''div'' [1] None # pair_nodes ''3'' 1\<rparr>"

definition demo_pair_updated :: rt where
  "demo_pair_updated = init_rt\<lparr>
     componentStates := [Some 0 \<mapsto> [Num 5]], stateIndex := 1,
     rootVNode := Some demo_pair_root, rootContainer := Some 0, renderedNode := Some 8,
     nodes := elem ''div'' [8] None # (pair_nodes ''3'' 1)[0 := elem ''div'' [2, 5] None] @ pair_nodes ''5'' 8\<rparr>"

definition demo_pair_reset :: rt where
  "demo_pair_reset = init_rt\<lparr>
     componentStates := [Some 0 \<mapsto> [Num 3]], stateIndex := 1,
     rootVNode := Some demo_pair_root, rootContainer := Some 0, renderedNode := Some 8,
     nodes := elem ''div'' [8] None # (pair_nodes ''3'' 1)[0 := elem ''div'' [2, 5] None] @ pair_nodes ''3'' 8\<rparr>"

section \<open>Assumptions on user code, and the predicates of the proofs\<close>

text \<open>
  User code that leaves the host's nodes alone: the components and the
  \<^verbatim>\<open>_onMounted\<close> callbacks return with the node store as they found it.
\<close>

definition dom_inert :: "env \<Rightarrow> bool" where
  "dom_inert env =
     ((\<forall>f props s. nodes (snd (component env f props s)) = nodes s)
      \<and> (\<forall>k element s. nodes (snd (callback env k element s)) = nodes s))"

text \<open>Callbacks that return with the cursor's component as they found it.\<close>

definition cursor_inert :: "env \<Rightarrow> bool" where
  "cursor_inert env = (\<forall>k element s. currentComponent (snd (callback env k element s)) = currentComponent s)"

text \<open>
  User code that leaves a slot alone once it holds a value: no component and no
  callback returns with another value in the slot of the hook \<open>h\<close> than the
  defined value it found there. A component that only calls \<^verbatim>\<open>useState\<close> is of
  this kind; one that calls a setter of the slot while it renders is not.
\<close>

definition hook_stable :: "env \<Rightarrow> hook \<Rightarrow> bool" where
  "hook_stable env h =
     ((\<forall>f props s. slot s h \<noteq> Undefined \<longrightarrow> slot (snd (component env f props s)) h = slot s h)
      \<and> (\<forall>k element s. slot s h \<noteq> Undefined \<longrightarrow> slot (snd (callback env k element s)) h = slot s h))"

text \<open>
  The same user code, but every component function first sets the cursor to
  itself and slot \<open>0\<close>, whatever the cursor was when it was called.
\<close>

definition at_cursor :: "env \<Rightarrow> env" where
  "at_cursor env =
     env\<lparr>component := (\<lambda>f props s. component env f props (s\<lparr>currentComponent := Some f, stateIndex := 0\<rparr>))\<rparr>"

text \<open>Descriptor trees in which no component occurs.\<close>

fun component_free :: "child \<Rightarrow> bool" where
  "component_free (CNode (VNode (Comp f) props children)) = False"
| "component_free (CNode (VNode (Tag type) props children)) = list_all component_free children"
| "component_free _ = True"

text \<open>
  The keys that \<^verbatim>\<open>renderToDOM\<close> treats before it reaches its last branch, the one
  that sets attributes.
\<close>

definition special_key :: "string \<Rightarrow> bool" where
  "special_key key =
     (key = ''key'' \<or> key = ''ref'' \<or> key = ''_onMounted'' \<or> startsWith key ''on''
      \<or> key = ''className'' \<or> key = ''style'' \<or> key = ''value'' \<or> key = ''checked''
      \<or> key = ''disabled'')"

text \<open>
  What a call of \<^verbatim>\<open>renderToDOM\<close> from \<open>s\<close> to \<open>s'\<close> does to the node store: the
  nodes of \<open>s\<close> are as they were, and a returned node is a new one, with no
  parent and with new nodes as children.
\<close>

definition render_post :: "rt \<Rightarrow> exn + nat \<Rightarrow> rt \<Rightarrow> bool" where
  "render_post s r s' =
     (length (nodes s) \<le> length (nodes s')
      \<and> (\<forall>i<length (nodes s). nodes s' ! i = nodes s ! i)
      \<and> (case r of Inl _ \<Rightarrow> True
          | Inr e \<Rightarrow> length (nodes s) \<le> e \<and> e < length (nodes s')
                     \<and> parentNode (nodes s' ! e) = None
                     \<and> (\<forall>k\<in>set (childNodes (nodes s' ! e)). length (nodes s) \<le> k)))"

text \<open>
  What appending rendered children to \<open>p\<close> does: every other node of \<open>s\<close> is as it
  was, and \<open>p\<close> differs in its children only, the added ones being new nodes.
\<close>

definition append_post :: "nat \<Rightarrow> rt \<Rightarrow> rt \<Rightarrow> bool" where
  "append_post p s s' =
     (length (nodes s) \<le> length (nodes s')
      \<and> (\<forall>i<length (nodes s). i \<noteq> p \<longrightarrow> nodes s' ! i = nodes s ! i)
      \<and> nodes s' ! p = (nodes s ! p)\<lparr>childNodes := childNodes (nodes s' ! p)\<rparr>
      \<and> (\<forall>k\<in>set (childNodes (nodes s' ! p)). k \<in> set (childNodes (nodes s ! p)) \<or> length (nodes s) \<le> k))"

text \<open>
  What binding props to \<open>e\<close> does: nothing to any other node, and nothing to the
  parent and the children of \<open>e\<close>.
\<close>

definition decorates :: "nat \<Rightarrow> rt \<Rightarrow> rt \<Rightarrow> bool" where
  "decorates e s s' =
     (length (nodes s') = length (nodes s)
      \<and> (\<forall>i. i \<noteq> e \<longrightarrow> nodes s' ! i = nodes s ! i)
      \<and> parentNode (nodes s' ! e) = parentNode (nodes s ! e)
      \<and> childNodes (nodes s' ! e) = childNodes (nodes s ! e))"

section \<open>Evaluating the example\<close>

lemmas host_defs = create_node_def update_node_def setAttribute_def setProperty_def setStyle_def
  addEventListener_def detach_def inserted_def adopt_def appendChild_def replaceChild_def
  clear_children_def new_node_def elem_def text_node_def

lemmas hook_defs = useState_def slot_def write_slot_def js_read_def js_write_def getter_def

lemmas demo_defs = demo_root_def demo_env_def Counter_def Failing_def demo_host_def init_rt_def
  createElement_def applyProp_def onMounted_def startsWith_def Let_def

lemma show_int_digit: "show_int 0 = ''0''" "show_int 1 = ''1''" "show_int 2 = ''2''"
  by (simp_all add: show_int_def show_nat.simps digit_char_def)

lemma mount_demo: "mount 4 demo_env demo_root 0 demo_host = Some (Inr (), demo_mounted)"
  by (simp add: demo_mounted_def mount_def demo_defs host_defs hook_defs show_int_digit eval_nat_numeral)

lemma update_demo: "setter 4 demo_env (Some 0, 0) (Num 1) demo_mounted = Some (Inr (), demo_updated)"
  by (simp add: demo_mounted_def demo_updated_def setter_def attach_rendered_def demo_defs host_defs
        hook_defs show_int_digit eval_nat_numeral)

lemma footer_demo:
  "(case create_node (TextNode ''footer'') demo_updated of (footer, s) \<Rightarrow> appendChild 0 footer s) = demo_footer"
  by (simp add: demo_updated_def demo_footer_def init_rt_def host_defs)

lemma update_again_demo:
  "setter 4 demo_env (Some 0, 0) (Num 2) demo_footer = Some (Inr (), demo_updated_again)"
  by (simp add: demo_footer_def demo_updated_def demo_updated_again_def setter_def attach_rendered_def
        demo_defs host_defs hook_defs show_int_digit eval_nat_numeral)

lemma show_int_more: "show_int 3 = ''3''" "show_int 5 = ''5''"
  by (simp_all add: show_int_def show_nat.simps digit_char_def)

lemmas eager_defs = Eager_def demo_eager_root_def setter_def attach_rendered_def mount_def

lemma mount_eager:
  "mount 3 (eager_env 2) demo_eager_root 0 demo_host = Some (Inr (), demo_eager_mounted)"
  by (simp add: demo_eager_mounted_def eager_defs demo_defs host_defs hook_defs eval_nat_numeral)

lemma update_eager:
  "setter 3 (eager_env 2) (Some 0, 0) (Num 5) demo_eager_mounted = Some (Inr (), demo_eager_updated)"
  by (simp add: demo_eager_mounted_def demo_eager_updated_def eager_defs demo_defs host_defs hook_defs
        eval_nat_numeral)

lemma mount_pair:
  "mount 5 demo_env demo_pair_root 0 demo_pair_host = Some (Inr (), demo_pair_mounted)"
  by (simp add: demo_pair_root_def demo_pair_host_def demo_pair_mounted_def pair_nodes_def mount_def
        demo_defs host_defs hook_defs show_int_more eval_nat_numeral)

lemma update_pair:
  "setter 5 demo_env (Some 0, 0) (Num 5) demo_pair_mounted = Some (Inr (), demo_pair_updated)"
  by (simp add: demo_pair_root_def demo_pair_mounted_def demo_pair_updated_def pair_nodes_def
        setter_def attach_rendered_def demo_defs host_defs hook_defs show_int_more eval_nat_numeral)

lemma reset_pair:
  "setter 5 demo_env (Some 0, 0) Undefined demo_pair_mounted = Some (Inr (), demo_pair_reset)"
  by (simp add: demo_pair_root_def demo_pair_mounted_def demo_pair_reset_def pair_nodes_def
        setter_def attach_rendered_def demo_defs host_defs hook_defs show_int_more eval_nat_numeral)

section \<open>The element factory\<close>

lemma flat_concat: "flat args = concat (map (\<lambda>a. case a of CArray xs \<Rightarrow> xs | _ \<Rightarrow> [a]) args)"
  by (induction args rule: flat.induct) auto

text \<open>
  C6. \<^verbatim>\<open>createElement\<close> keeps the kind, turns \<^verbatim>\<open>props = null\<close> into the empty
  mapping and keeps any other props, and its children are the arguments with
  each array argument replaced by its entries (one level only: an array inside
  an array stays an entry), without the entries that are \<^verbatim>\<open>null\<close> or
  \<^verbatim>\<open>undefined\<close>, everything else in the order of the call. It is a function of
  its arguments alone: it neither reads nor changes the runtime's state.
\<close>

theorem createElement_normalises:
  "vtype (createElement k props args) = k
   \<and> vprops (createElement k None args) = []
   \<and> vprops (createElement k (Some p) args) = p
   \<and> vchildren (createElement k props args) =
       filter (\<lambda>c. c \<noteq> CNull \<and> c \<noteq> CUndefined)
         (concat (map (\<lambda>a. case a of CArray xs \<Rightarrow> xs | _ \<Rightarrow> [a]) args))"
  by (simp add: createElement_def flat_concat)

section \<open>The state store\<close>

lemma js_read_write: "js_read (js_write xs i v) i = v"
  by (auto simp: js_read_def js_write_def nth_append)

lemma slot_write_slot: "slot (write_slot h v s) h = v"
  by (simp add: slot_def write_slot_def js_read_write)

lemma strict_eq_Undefined: "strict_eq x Undefined = (x = Undefined)"
  by (cases x) auto

lemma slot_stateIndex: "slot (s\<lparr>stateIndex := i\<rparr>) h = slot s h"
  by (simp add: slot_def)

lemma slot_add_empty:
  "componentStates s c = None \<Longrightarrow> slot (s\<lparr>componentStates := (componentStates s)(c \<mapsto> [])\<rparr>) h = slot s h"
  by (simp add: slot_def js_read_def)

lemma useState_hook: "fst (useState initialValue s) = (currentComponent s, stateIndex s)"
  by (simp add: useState_def Let_def)

lemma useState_slot:
  "slot (snd (useState initialValue s)) (currentComponent s, stateIndex s) =
     (if slot s (currentComponent s, stateIndex s) = Undefined then initialValue
      else slot s (currentComponent s, stateIndex s))"
  by (simp add: useState_def Let_def strict_eq_Undefined slot_write_slot slot_add_empty slot_stateIndex)

lemma useState_key_present: "componentStates (snd (useState v s)) (currentComponent s) \<noteq> None"
  by (simp add: useState_def Let_def write_slot_def)

lemma useState_stateIndex: "stateIndex (snd (useState v s)) = stateIndex s + 1"
  by (simp add: useState_def Let_def write_slot_def)

text \<open>
  C2. A setter called with a value that is \<^verbatim>\<open>===\<close> to what its slot holds returns
  at once and leaves the whole state as it was: the slot, the host's nodes and
  \<^verbatim>\<open>renderedNode\<close> with it. Nothing is rendered, whatever the components are and
  even where a render could not finish (the bound \<open>n\<close> is arbitrary, \<open>0\<close> too).
\<close>

theorem setter_same_value_noop:
  "strict_eq (getter h s) newValue \<Longrightarrow> setter n env h newValue s = Some (Inr (), s)"
  by (simp add: setter_def getter_def)

theorem setter_same_value_noop_witness:
  "strict_eq (getter (Some 0, 0) demo_mounted) (Num 0)
   \<and> setter 4 demo_env (Some 0, 0) (Num 0) demo_mounted = Some (Inr (), demo_mounted)"
proof -
  have h: "strict_eq (getter (Some 0, 0) demo_mounted) (Num 0)"
    by (simp add: demo_mounted_def init_rt_def hook_defs)
  show ?thesis
    using h setter_same_value_noop [OF h, of 4 demo_env] by simp
qed

text \<open>
  C3, as the code has it. \<^verbatim>\<open>useState\<close> answers with the hook of the cursor's
  position. A slot that reads \<^verbatim>\<open>undefined\<close> (it was never written, or it holds
  \<^verbatim>\<open>undefined\<close>) is set to the initial value; a slot that holds anything else is
  left as it is and the initial value is ignored.
\<close>

theorem useState_initialises_undefined_slot:
  "fst (useState initialValue s) = (currentComponent s, stateIndex s)
   \<and> slot (snd (useState initialValue s)) (currentComponent s, stateIndex s) =
       (if slot s (currentComponent s, stateIndex s) = Undefined then initialValue
        else slot s (currentComponent s, stateIndex s))"
  by (simp add: useState_hook useState_slot)

text \<open>
  C3 as stated fails where the slot holds \<^verbatim>\<open>undefined\<close>: component \<open>0\<close> calls
  \<^verbatim>\<open>useState(undefined)\<close> in its first render, so slot \<open>0\<close> exists and holds
  \<^verbatim>\<open>undefined\<close>; the call \<^verbatim>\<open>useState(5)\<close> at the same position in the next render
  does not ignore its argument, the slot holds \<open>5\<close> afterwards.
\<close>

theorem useState_reinitialises_counterexample:
  "componentStates (snd (useState Undefined (init_rt\<lparr>currentComponent := Some 0\<rparr>))) (Some 0) = Some [Undefined]
   \<and> slot (snd (useState (Num 5)
              ((snd (useState Undefined (init_rt\<lparr>currentComponent := Some 0\<rparr>)))\<lparr>stateIndex := 0\<rparr>)))
        (Some 0, 0) = Num 5"
  by (simp add: useState_def init_rt_def slot_def write_slot_def js_read_def js_write_def Let_def)

text \<open>
  C9, as the code has it. With no component being rendered the cursor's component
  is \<^verbatim>\<open>null\<close>, and \<^verbatim>\<open>useState\<close> returns as it does anywhere else: the hook is a
  slot of the list stored under the key \<^verbatim>\<open>null\<close>, which every such call shares,
  and the index moves on by one.
\<close>

theorem useState_outside_render:
  "currentComponent s = None \<Longrightarrow>
     fst (useState initialValue s) = (None, stateIndex s)
     \<and> componentStates (snd (useState initialValue s)) None \<noteq> None
     \<and> stateIndex (snd (useState initialValue s)) = stateIndex s + 1
     \<and> getter (None, stateIndex s) (snd (useState initialValue s)) =
         (if slot s (None, stateIndex s) = Undefined then initialValue
          else slot s (None, stateIndex s))"
  using useState_slot [of initialValue s] useState_key_present [of initialValue s]
  by (simp add: useState_stateIndex useState_hook getter_def)

theorem useState_outside_render_witness:
  "currentComponent init_rt = None
   \<and> fst (useState (Num 1) init_rt) = (None, 0)
   \<and> componentStates (snd (useState (Num 1) init_rt)) None \<noteq> None
   \<and> stateIndex (snd (useState (Num 1) init_rt)) = 1
   \<and> getter (None, 0) (snd (useState (Num 1) init_rt)) = Num 1"
  using useState_outside_render [of init_rt "Num 1"] by (simp add: init_rt_def slot_def)

text \<open>
  C9 as stated fails: in the initial state, where nothing is being rendered,
  \<^verbatim>\<open>useState(1)\<close> raises nothing; it returns the hook \<open>(null, 0)\<close> and stores the
  value under the key \<^verbatim>\<open>null\<close>.
\<close>

theorem useState_outside_render_counterexample:
  "currentComponent init_rt = None
   \<and> fst (useState (Num 1) init_rt) = (None, 0)
   \<and> componentStates (snd (useState (Num 1) init_rt)) None = Some [Num 1]"
  by (simp add: useState_def init_rt_def slot_def write_slot_def js_read_def js_write_def Let_def)

section \<open>Mounting\<close>

text \<open>
  C1 at a concrete input: a container (node \<open>0\<close>) that holds a text node (node
  \<open>1\<close>), and the counter mounted into it. \<^verbatim>\<open>mount\<close> appends the rendered heading
  (node \<open>2\<close>) but leaves \<^verbatim>\<open>renderedNode\<close> at \<^verbatim>\<open>null\<close>; so the first update finds no
  previously produced node, empties the container, the text node with it, and
  appends the new heading (node \<open>5\<close>) instead of putting it where node \<open>2\<close> was.
  Only the first update does so: once the page has appended a footer (node \<open>8\<close>),
  the second update puts its heading (node \<open>9\<close>) where node \<open>5\<close> was and the
  footer stays.
\<close>

theorem mount_leaves_renderedNode_unset:
  "mount 4 demo_env demo_root 0 demo_host = Some (Inr (), demo_mounted)
   \<and> renderedNode demo_mounted = None
   \<and> childNodes (nodes demo_mounted ! 0) = [1, 2]
   \<and> setter 4 demo_env (Some 0, 0) (Num 1) demo_mounted = Some (Inr (), demo_updated)
   \<and> childNodes (nodes demo_updated ! 0) = [5]
   \<and> parentNode (nodes demo_updated ! 1) = None
   \<and> childNodes (nodes demo_footer ! 0) = [5, 8]
   \<and> setter 4 demo_env (Some 0, 0) (Num 2) demo_footer = Some (Inr (), demo_updated_again)
   \<and> childNodes (nodes demo_updated_again ! 0) = [9, 8]"
  by (simp add: mount_demo update_demo update_again_demo)
     (simp add: demo_mounted_def demo_updated_def demo_footer_def demo_updated_again_def init_rt_def
        elem_def text_node_def new_node_def)

section \<open>The bound on the recursion\<close>

text \<open>
  The bound only cuts the recursion off: a render that answers within a bound
  gives the same answer within any larger one. For a descriptor tree without
  components a bound above the tree's size is enough for an answer (a node or an
  exception); a component can return a descriptor of itself for ever, in the
  source as here.
\<close>

lemma size_child_less:
  "c \<in> set children \<Longrightarrow> size c < size (CNode (VNode k props children))"
  by (induction children) auto

lemma render_more_fuel:
  "renderToDOM n env v s = Some r \<Longrightarrow> renderToDOM (Suc n) env v s = Some r"
  "appendChildren n env p cs s = Some u \<Longrightarrow> appendChildren (Suc n) env p cs s = Some u"
proof (induction n env v s and n env p cs s arbitrary: r and u rule: renderToDOM_appendChildren.induct)
  case (7 n env f props children s)
  then show ?case
    by (auto split: prod.splits sum.splits)
next
  case (8 n env type props children s)
  then show ?case
    by (auto simp: create_node_def split: prod.splits sum.splits option.splits if_splits)
next
  case (10 n env parent c cs s)
  then show ?case
    by (auto split: prod.splits sum.splits option.splits)
qed simp_all

lemma render_returns:
  "component_free v \<Longrightarrow> size v < n \<Longrightarrow> renderToDOM n env v s \<noteq> None"
  "list_all component_free cs \<Longrightarrow> (\<forall>c\<in>set cs. size c < n) \<Longrightarrow> appendChildren n env p cs s \<noteq> None"
proof (induction n env v s and n env p cs s rule: renderToDOM_appendChildren.induct)
  case (8 n env type props children s)
  let ?e = "length (nodes s)"
  have free: "list_all component_free children"
    using "8.prems"(1) by simp
  have small: "\<forall>c\<in>set children. size c < n"
    using "8.prems"(2) size_child_less [of _ children "Tag type" props] by fastforce
  show ?case
  proof (cases "type = ''fragment''")
    case True
    have cn: "(?e, s\<lparr>nodes := nodes s @ [new_node FragmentNode]\<rparr>) = create_node FragmentNode s"
      by (simp add: create_node_def)
    show ?thesis
      using "8.IH"(1) [OF True cn free small] True
      by (auto simp: create_node_def split: option.splits prod.splits sum.splits)
  next
    case False
    let ?s1 = "s\<lparr>nodes := nodes s @ [new_node (ElementNode type)]\<rparr>"
    have cn: "(?e, ?s1) = create_node (ElementNode type) s"
      by (simp add: create_node_def)
    obtain a s2 where ap: "applyProps env type ?e props ?s1 = (a, s2)"
      by (cases "applyProps env type ?e props ?s1")
    show ?thesis
    proof (cases a)
      case (Inl x)
      with False ap show ?thesis
        by (simp add: create_node_def)
    next
      case (Inr y)
      show ?thesis
        using "8.IH"(2) [OF False cn ap [symmetric] Inr free small] False ap Inr
        by (auto simp: create_node_def split: option.splits prod.splits sum.splits)
    qed
  qed
next
  case (10 n env parent c cs s)
  have c: "renderToDOM n env c s \<noteq> None"
    using "10.IH"(1) "10.prems" by simp
  then obtain a s1 where r1: "renderToDOM n env c s = Some (a, s1)"
    by auto
  show ?case
  proof (cases a)
    case (Inl x)
    with r1 show ?thesis by simp
  next
    case (Inr node)
    show ?thesis
      using "10.IH"(2) [OF r1 refl Inr] "10.prems" r1 Inr by simp
  qed
qed (auto simp: create_node_def)

section \<open>The renderer leaves the existing nodes alone\<close>

lemma nodes_update_node: "nodes (update_node i f s) = (nodes s)[i := f (nodes s ! i)]"
  by (simp add: update_node_def)

lemma length_fold_update:
  "length (nodes (fold (\<lambda>k. update_node k f) ks s)) = length (nodes s)"
  by (induction ks arbitrary: s) (simp_all add: nodes_update_node)

lemma nth_fold_update:
  "i \<notin> set ks \<Longrightarrow> nodes (fold (\<lambda>k. update_node k f) ks s) ! i = nodes s ! i"
  by (induction ks arbitrary: s) (simp_all add: nodes_update_node)

lemma adopt_fresh:
  assumes "parentNode (nodes s ! c) = None"
  shows "length (nodes (adopt p c s)) = length (nodes s)"
    and "i \<noteq> c \<Longrightarrow> i \<notin> set (childNodes (nodes s ! c)) \<Longrightarrow> nodes (adopt p c s) ! i = nodes s ! i"
  using assms
  by (simp_all add: adopt_def detach_def nodes_update_node length_fold_update nth_fold_update)

lemma appendChild_fresh:
  assumes "parentNode (nodes s ! c) = None" "p < length (nodes s)" "p \<noteq> c"
    "p \<notin> set (childNodes (nodes s ! c))"
  shows "length (nodes (appendChild p c s)) = length (nodes s)"
    and "i \<noteq> p \<Longrightarrow> i \<noteq> c \<Longrightarrow> i \<notin> set (childNodes (nodes s ! c)) \<Longrightarrow> nodes (appendChild p c s) ! i = nodes s ! i"
    and "nodes (appendChild p c s) ! p = (nodes s ! p)\<lparr>childNodes := childNodes (nodes s ! p) @ inserted s c\<rparr>"
  using assms
  by (simp_all add: appendChild_def Let_def nodes_update_node adopt_fresh)

lemma inserted_subset: "set (inserted s c) \<subseteq> insert c (set (childNodes (nodes s ! c)))"
  by (auto simp: inserted_def)

lemma append_post_step:
  assumes "render_post s (Inr c) s1" "p < length (nodes s)"
  shows "append_post p s (appendChild p c s1)"
proof -
  from assms have len: "length (nodes s) \<le> length (nodes s1)"
    and same: "\<forall>i<length (nodes s). nodes s1 ! i = nodes s ! i"
    and c: "length (nodes s) \<le> c" "c < length (nodes s1)" "parentNode (nodes s1 ! c) = None"
    and kids: "\<forall>k\<in>set (childNodes (nodes s1 ! c)). length (nodes s) \<le> k"
    by (simp_all add: render_post_def)
  have p1: "p < length (nodes s1)" "p \<noteq> c" "p \<notin> set (childNodes (nodes s1 ! c))"
    using assms(2) len c kids by auto
  note ac = appendChild_fresh [OF c(3) p1]
  have ins: "\<forall>k\<in>set (inserted s1 c). length (nodes s) \<le> k"
    using inserted_subset [of s1 c] c(1) kids by auto
  show ?thesis
    unfolding append_post_def
  proof (intro conjI allI impI ballI)
    show "length (nodes s) \<le> length (nodes (appendChild p c s1))"
      using ac(1) len by simp
  next
    fix i assume i: "i < length (nodes s)" "i \<noteq> p"
    then have "i \<noteq> c" "i \<notin> set (childNodes (nodes s1 ! c))"
      using c(1) kids by auto
    then show "nodes (appendChild p c s1) ! i = nodes s ! i"
      using ac(2) [of i] i same by simp
  next
    show "nodes (appendChild p c s1) ! p =
          (nodes s ! p)\<lparr>childNodes := childNodes (nodes (appendChild p c s1) ! p)\<rparr>"
      using ac(3) same assms(2) by simp
  next
    fix k assume "k \<in> set (childNodes (nodes (appendChild p c s1) ! p))"
    then show "k \<in> set (childNodes (nodes s ! p)) \<or> length (nodes s) \<le> k"
      using ac(3) same assms(2) ins by auto
  qed
qed

lemma append_post_trans:
  assumes "append_post p s s1" "append_post p s1 s2" "p < length (nodes s)"
  shows "append_post p s s2"
  using assms unfolding append_post_def
  apply (intro conjI)
     apply simp
    apply (metis (no_types, lifting) less_le_trans)
   apply (metis dom_node.update_convs(6) dom_node.surjective)
  apply (metis (no_types, lifting) order_trans)
  done


lemma decorates_refl: "decorates e s s"
  by (simp add: decorates_def)

lemma decorates_trans: "decorates e s s1 \<Longrightarrow> decorates e s1 s2 \<Longrightarrow> decorates e s s2"
  by (simp add: decorates_def)

lemma decorates_update:
  assumes "\<And>n. parentNode (f n) = parentNode n" "\<And>n. childNodes (f n) = childNodes n"
    and "decorates e s s1"
  shows "decorates e s (update_node e f s1)"
proof -
  have "decorates e s1 (update_node e f s1)"
    using assms(1,2)
    by (cases "e < length (nodes s1)") (simp_all add: decorates_def nodes_update_node list_update_beyond)
  with assms(3) show ?thesis
    by (rule decorates_trans)
qed

lemma decorates_setAttribute: "decorates e s s1 \<Longrightarrow> decorates e s (setAttribute e k v s1)"
  unfolding setAttribute_def by (rule decorates_update) simp_all

lemma decorates_setProperty: "decorates e s s1 \<Longrightarrow> decorates e s (setProperty e k v s1)"
  unfolding setProperty_def by (rule decorates_update) simp_all

lemma decorates_setStyle: "decorates e s s1 \<Longrightarrow> decorates e s (setStyle e k v s1)"
  unfolding setStyle_def by (rule decorates_update) simp_all

lemma decorates_addEventListener: "decorates e s s1 \<Longrightarrow> decorates e s (addEventListener e k v s1)"
  unfolding addEventListener_def by (rule decorates_update) simp_all

lemma decorates_applyStyles: "decorates e s s1 \<Longrightarrow> decorates e s (fold (applyStyle e) entries s1)"
proof (induction entries arbitrary: s1)
  case Nil
  then show ?case by simp
next
  case (Cons x xs)
  from Cons.prems have "decorates e s (applyStyle e x s1)"
    by (cases x) (simp add: applyStyle_def decorates_setStyle)
  then show ?case
    using Cons.IH by simp
qed

lemmas decorates_ops = decorates_refl decorates_setAttribute decorates_setProperty
  decorates_setStyle decorates_addEventListener decorates_applyStyles

lemma decorates_applyProp: "decorates e s (snd (applyProp env type e entry s))"
  by (cases entry) (simp add: applyProp_def Let_def decorates_ops split: jsval.splits)

lemma decorates_applyProps: "decorates e s (snd (applyProps env type e props s))"
proof (induction props arbitrary: s)
  case Nil
  show ?case by (simp add: decorates_refl)
next
  case (Cons x xs)
  show ?case
    using decorates_applyProp [of e s env type x] Cons [of "snd (applyProp env type e x s)"]
    by (auto split: prod.splits sum.splits intro: decorates_trans)
qed


lemma render_post_created:
  "render_post s (Inr (length (nodes s))) (s\<lparr>nodes := nodes s @ [new_node k]\<rparr>)"
  by (simp add: render_post_def nth_append new_node_def)

lemma render_post_nodes_cong:
  "nodes a = nodes b \<Longrightarrow> nodes a' = nodes b' \<Longrightarrow> render_post a r a' = render_post b r b'"
  by (simp add: render_post_def cong: sum.case_cong)

lemma render_post_Inl: "render_post s r s' \<Longrightarrow> render_post s (Inl x) s'"
  by (simp add: render_post_def)

lemma append_post_refl: "append_post p s s"
  by (simp add: append_post_def)

lemma append_post_of_render: "render_post s r s' \<Longrightarrow> p < length (nodes s) \<Longrightarrow> append_post p s s'"
  by (simp add: render_post_def append_post_def)

lemma render_post_same: "nodes s' = nodes s \<Longrightarrow> render_post s (Inl x) s'"
  by (simp add: render_post_def)

lemma inert_component: "dom_inert env \<Longrightarrow> component env f props s = (a, b) \<Longrightarrow> nodes b = nodes s"
  by (metis dom_inert_def snd_conv)

lemma inert_callback: "dom_inert env \<Longrightarrow> callback env k e s = (a, b) \<Longrightarrow> nodes b = nodes s"
  by (metis dom_inert_def snd_conv)

lemma inert_onMounted: "dom_inert env \<Longrightarrow> onMounted env props e s = (a, b) \<Longrightarrow> nodes b = nodes s"
  by (auto simp: onMounted_def split: option.splits jsval.splits dest: inert_callback)

text \<open>The element case of the renderer, put together.\<close>

lemma render_post_element:
  assumes d: "decorates (length (nodes s)) (s\<lparr>nodes := nodes s @ [new_node k]\<rparr>) s2"
    and a: "append_post (length (nodes s)) s2 s3"
    and n: "nodes s4 = nodes s3"
  shows "render_post s (Inr (length (nodes s))) s4"
proof -
  let ?e = "length (nodes s)"
  let ?s1 = "s\<lparr>nodes := nodes s @ [new_node k]\<rparr>"
  from d have l2: "length (nodes s2) = Suc ?e"
    and o2: "\<forall>i. i \<noteq> ?e \<longrightarrow> nodes s2 ! i = nodes ?s1 ! i"
    and p2: "parentNode (nodes s2 ! ?e) = None" and c2: "childNodes (nodes s2 ! ?e) = []"
    by (simp_all add: decorates_def new_node_def)
  from a have l3: "length (nodes s2) \<le> length (nodes s3)"
    and o3: "\<forall>i<length (nodes s2). i \<noteq> ?e \<longrightarrow> nodes s3 ! i = nodes s2 ! i"
    and p3: "nodes s3 ! ?e = (nodes s2 ! ?e)\<lparr>childNodes := childNodes (nodes s3 ! ?e)\<rparr>"
    and c3: "\<forall>k\<in>set (childNodes (nodes s3 ! ?e)). k \<in> set (childNodes (nodes s2 ! ?e)) \<or> length (nodes s2) \<le> k"
    by (simp_all add: append_post_def)
  have par: "parentNode (nodes s3 ! ?e) = None"
    using p3 p2 by (metis dom_node.select_convs(7) dom_node.surjective dom_node.update_convs(6))
  show ?thesis
    unfolding render_post_def n
    using l2 l3 o2 o3 c2 c3 par by (auto simp: nth_append)
qed

lemma frame:
  "dom_inert env \<Longrightarrow> renderToDOM n env v s = Some (r, s') \<Longrightarrow> render_post s r s'"
  "dom_inert env \<Longrightarrow> appendChildren n env p cs s = Some (u, s') \<Longrightarrow> p < length (nodes s) \<Longrightarrow> append_post p s s'"
proof (induction n env v s and n env p cs s arbitrary: r s' and u s' rule: renderToDOM_appendChildren.induct)
  case (1 env vnode s)
  then show ?case by simp
next
  case (2 n env s)
  then show ?case by (auto simp: create_node_def render_post_created)
next
  case (3 n env str s)
  then show ?case by (auto simp: create_node_def render_post_created)
next
  case (4 n env i s)
  then show ?case by (auto simp: create_node_def render_post_created)
next
  case (5 n env s)
  then show ?case by (auto simp: render_post_def)
next
  case (6 n env xs s)
  then show ?case by (auto simp: create_node_def render_post_def nth_append)
next
  case (7 n env f props children s)
  obtain a b where c: "component env f props (s\<lparr>currentComponent := Some f, stateIndex := 0\<rparr>) = (a, b)"
    by (cases "component env f props (s\<lparr>currentComponent := Some f, stateIndex := 0\<rparr>)")
  have nb: "nodes b = nodes s"
    using inert_component [OF "7.prems"(1) c] by simp
  show ?case
  proof (cases a)
    case (Inl x)
    with c "7.prems"(2) nb show ?thesis
      by (auto simp: render_post_same)
  next
    case (Inr result)
    with c "7.prems"(2) have "renderToDOM n env result (b\<lparr>currentComponent := None\<rparr>) = Some (r, s')"
      by simp
    then have "render_post (b\<lparr>currentComponent := None\<rparr>) r s'"
      using "7.IH" [OF c [symmetric] Inr "7.prems"(1)] by simp
    then show ?thesis
      using nb render_post_nodes_cong [of "b\<lparr>currentComponent := None\<rparr>" s s' s' r] by simp
  qed
next
  case (8 n env type props children s)
  let ?e = "length (nodes s)"
  show ?case
  proof (cases "type = ''fragment''")
    case True
    let ?s1 = "s\<lparr>nodes := nodes s @ [new_node FragmentNode]\<rparr>"
    from True "8.prems"(2) obtain u s2 where
      ac: "appendChildren n env ?e children ?s1 = Some (u, s2)"
      and res: "(r, s') = (case u of Inl x \<Rightarrow> (Inl x, s2) | Inr _ \<Rightarrow> (Inr ?e, s2))"
      by (auto simp: create_node_def split: option.splits sum.splits)
    have cn: "(?e, ?s1) = create_node FragmentNode s"
      by (simp add: create_node_def)
    have "append_post ?e ?s1 s2"
      using "8.IH"(1) [OF True cn "8.prems"(1) ac] by simp
    then have "render_post s (Inr ?e) s2"
      using render_post_element [OF decorates_refl, of s FragmentNode s2 s2] by simp
    then show ?thesis
      using res by (auto split: sum.splits intro: render_post_Inl)
  next
    case False
    let ?s1 = "s\<lparr>nodes := nodes s @ [new_node (ElementNode type)]\<rparr>"
    obtain a s2 where ap: "applyProps env type ?e props ?s1 = (a, s2)"
      by (cases "applyProps env type ?e props ?s1")
    have d: "decorates ?e ?s1 s2"
      using decorates_applyProps [of ?e ?s1 env type props] ap by simp
    show ?thesis
    proof (cases a)
      case (Inl x)
      have "render_post s (Inr ?e) s2"
        using render_post_element [OF d append_post_refl refl] .
      then show ?thesis
        using False "8.prems"(2) ap Inl by (auto simp: create_node_def intro: render_post_Inl)
    next
      case (Inr y)
      from False "8.prems"(2) ap Inr obtain u s3 where
        ac: "appendChildren n env ?e children s2 = Some (u, s3)"
        by (auto simp: create_node_def split: option.splits)
      have e2: "?e < length (nodes s2)"
        using d by (simp add: decorates_def)
      have cn: "(?e, ?s1) = create_node (ElementNode type) s"
        by (simp add: create_node_def)
      have a3: "append_post ?e s2 s3"
        using "8.IH"(2) [OF False cn ap [symmetric] Inr "8.prems"(1) ac e2] .
      show ?thesis
      proof (cases u)
        case (Inl x)
        have "render_post s (Inr ?e) s3"
          using render_post_element [OF d a3 refl] .
        then show ?thesis
          using False "8.prems"(2) ap Inr ac Inl by (auto simp: create_node_def intro: render_post_Inl)
      next
        case (Inr z)
        obtain w s4 where om: "onMounted env props ?e s3 = (w, s4)"
          by (cases "onMounted env props ?e s3")
        have "render_post s (Inr ?e) s4"
          using render_post_element [OF d a3 inert_onMounted [OF "8.prems"(1) om]] .
        then show ?thesis
          using False "8.prems"(2) ap \<open>a = Inr y\<close> ac Inr om
          by (auto simp: create_node_def split: sum.splits intro: render_post_Inl)
      qed
    qed
  qed
next
  case (9 n env parent s)
  then show ?case by (simp add: append_post_refl)
next
  case (10 n env parent c cs s)
  from "10.prems"(2) obtain a s1 where r1: "renderToDOM n env c s = Some (a, s1)"
    by (auto split: option.splits)
  have rp: "render_post s a s1"
    using "10.IH"(1) [OF "10.prems"(1) r1] .
  show ?case
  proof (cases a)
    case (Inl x)
    with r1 "10.prems"(2) have "s' = s1" by simp
    then show ?thesis
      using rp "10.prems"(3) by (simp add: append_post_of_render)
  next
    case (Inr node)
    let ?s2 = "appendChild parent node s1"
    have st: "append_post parent s ?s2"
      using append_post_step rp Inr "10.prems"(3) by simp
    have rest: "appendChildren n env parent cs ?s2 = Some (u, s')"
      using r1 Inr "10.prems"(2) by simp
    have "parent < length (nodes ?s2)"
      using st "10.prems"(3) by (simp add: append_post_def)
    then have "append_post parent ?s2 s'"
      using "10.IH"(2) [OF r1 refl Inr "10.prems"(1) rest] by simp
    with st show ?thesis
      using "10.prems"(3) by (rule append_post_trans)
  qed
qed

section \<open>Mounting into a container that has content\<close>

lemma nodes_useState: "nodes (snd (useState v s)) = nodes s"
  by (simp add: useState_def Let_def write_slot_def)

lemma nodes_useState_eq: "useState v s = (h, s') \<Longrightarrow> nodes s' = nodes s"
  using nodes_useState [of v s] by simp

lemma dom_inert_demo: "dom_inert demo_env"
  by (auto simp: dom_inert_def demo_env_def Counter_def Failing_def Let_def
        split: prod.splits dest: nodes_useState_eq)

lemma cursor_inert_demo: "cursor_inert demo_env"
  by (simp add: cursor_inert_def demo_env_def)





section \<open>The binding of props\<close>

lemma nth_update_node:
  "e < length (nodes s) \<Longrightarrow> nodes (update_node e f s) ! e = f (nodes s ! e)"
  by (simp add: nodes_update_node)

lemma length_update_node: "length (nodes (update_node e f s)) = length (nodes s)"
  by (simp add: nodes_update_node)

lemma length_applyStyles: "length (nodes (fold (applyStyle e) entries s)) = length (nodes s)"
  by (induction entries arbitrary: s)
     (auto simp: applyStyle_def setStyle_def length_update_node split: prod.splits)

lemma attributes_applyStyles:
  "e < length (nodes s) \<Longrightarrow> attributes (nodes (fold (applyStyle e) entries s) ! e) = attributes (nodes s ! e)"
  by (induction entries arbitrary: s)
     (auto simp: applyStyle_def setStyle_def length_update_node nth_update_node split: prod.splits)


text \<open>An entry under another key never sets the attribute \<open>k\<close>.\<close>

lemma applyProp_other_attribute:
  assumes "fst entry \<noteq> k" "e < length (nodes s)"
  shows "map_of (attributes (nodes (snd (applyProp env type e entry s)) ! e)) k
         = map_of (attributes (nodes s ! e)) k"
  using assms
  by (cases entry)
     (auto simp: applyProp_def Let_def setAttribute_def setProperty_def addEventListener_def
        nth_update_node length_update_node attributes_applyStyles update_conv'
        split: jsval.splits)

lemma applyProp_own_attribute:
  assumes "\<not> special_key k" "e < length (nodes s)"
  shows "map_of (attributes (nodes (snd (applyProp env type e (k, v) s)) ! e)) k
         = (if v = Null \<or> v = Undefined \<or> v = Bool False then map_of (attributes (nodes s ! e)) k
            else if v = Bool True then Some [] else Some (String_of env v))"
  using assms
  by (auto simp: applyProp_def special_key_def setAttribute_def nth_update_node update_conv'
        split: jsval.splits)

lemma length_applyProp: "length (nodes (snd (applyProp env type e entry s))) = length (nodes s)"
  using decorates_applyProp [of e s env type entry] by (simp add: decorates_def)

lemma applyProps_absent_attribute:
  assumes "k \<notin> fst ` set props" "e < length (nodes s)"
  shows "map_of (attributes (nodes (snd (applyProps env type e props s)) ! e)) k
         = map_of (attributes (nodes s ! e)) k"
  using assms
proof (induction props arbitrary: s)
  case Nil
  then show ?case by simp
next
  case (Cons x xs)
  obtain a s1 where ap: "applyProp env type e x s = (a, s1)"
    by (cases "applyProp env type e x s")
  have 1: "map_of (attributes (nodes s1 ! e)) k = map_of (attributes (nodes s ! e)) k"
    using applyProp_other_attribute [of x k e s env type] Cons.prems ap by auto
  have 2: "e < length (nodes s1)"
    using length_applyProp [of env type e x s] ap Cons.prems by simp
  show ?case
    using ap 1 Cons.IH [OF _ 2] Cons.prems(1) by (cases a) auto
qed

lemma applyProps_attribute:
  assumes "distinct (map fst props)" "(k, v) \<in> set props" "\<not> special_key k" "e < length (nodes s)"
    "applyProps env type e props s = (Inr u, s')"
  shows "map_of (attributes (nodes s' ! e)) k
         = (if v = Null \<or> v = Undefined \<or> v = Bool False then map_of (attributes (nodes s ! e)) k
            else if v = Bool True then Some [] else Some (String_of env v))"
  using assms
proof (induction props arbitrary: s)
  case Nil
  then show ?case by simp
next
  case (Cons x xs)
  obtain a s1 where ap: "applyProp env type e x s = (a, s1)"
    by (cases "applyProp env type e x s")
  with Cons.prems(5) obtain w where a: "a = Inr w" and rest: "applyProps env type e xs s1 = (Inr u, s')"
    by (cases a) auto
  have 2: "e < length (nodes s1)"
    using length_applyProp [of env type e x s] ap Cons.prems by simp
  show ?case
  proof (cases "x = (k, v)")
    case True
    then have "k \<notin> fst ` set xs"
      using Cons.prems(1) by auto
    then have "map_of (attributes (nodes s' ! e)) k = map_of (attributes (nodes s1 ! e)) k"
      using applyProps_absent_attribute [OF _ 2, of k xs env type] rest by simp
    then show ?thesis
      using applyProp_own_attribute [OF Cons.prems(3,4), of env type v] ap True by simp
  next
    case False
    then have in_xs: "(k, v) \<in> set xs" and "fst x \<noteq> k"
      using Cons.prems(1,2) by (auto simp: image_iff)
    then have "map_of (attributes (nodes s1 ! e)) k = map_of (attributes (nodes s ! e)) k"
      using applyProp_other_attribute [of x k e s env type] Cons.prems(4) ap by simp
    then show ?thesis
      using Cons.IH [OF _ in_xs Cons.prems(3) 2 rest] Cons.prems(1) by simp
  qed
qed





text \<open>
  The element that \<^verbatim>\<open>renderToDOM\<close> returns for a host tag is the node it created
  first, as the binding of the props left it, but for its children.
\<close>

lemma render_element:
  assumes inert: "dom_inert env" and nf: "type \<noteq> ''fragment''"
    and r: "renderToDOM n env (CNode (VNode (Tag type) props children)) s = Some (Inr e, s')"
  shows "e = length (nodes s)
         \<and> (\<exists>u s2. applyProps env type e props (s\<lparr>nodes := nodes s @ [new_node (ElementNode type)]\<rparr>) = (Inr u, s2)
              \<and> nodes s' ! e = (nodes s2 ! e)\<lparr>childNodes := childNodes (nodes s' ! e)\<rparr>)"
proof -
  from r obtain m where n: "n = Suc m"
    by (cases n) auto
  let ?e = "length (nodes s)"
  let ?s1 = "s\<lparr>nodes := nodes s @ [new_node (ElementNode type)]\<rparr>"
  obtain a s2 where ap: "applyProps env type ?e props ?s1 = (a, s2)"
    by (cases "applyProps env type ?e props ?s1")
  from r n nf ap obtain u where a: "a = Inr u"
    by (cases a) (auto simp: create_node_def)
  from r n nf ap a obtain w s3 where ac: "appendChildren m env ?e children s2 = Some (Inr w, s3)"
    by (auto simp: create_node_def split: option.splits sum.splits)
  from r n nf ap a ac obtain z where om: "onMounted env props ?e s3 = (Inr z, s')" and e: "e = ?e"
    by (auto simp: create_node_def split: prod.splits sum.splits)
  have e2: "?e < length (nodes s2)"
    using decorates_applyProps [of ?e ?s1 env type props] ap by (simp add: decorates_def)
  have "append_post ?e s2 s3"
    using frame(2) [OF inert ac e2] .
  then have "nodes s3 ! ?e = (nodes s2 ! ?e)\<lparr>childNodes := childNodes (nodes s3 ! ?e)\<rparr>"
    by (simp add: append_post_def)
  moreover have "nodes s' = nodes s3"
    using inert_onMounted [OF inert om] .
  ultimately show ?thesis
    using e ap a by auto
qed

lemma childNodes_update_attributes:
  "n' = n\<lparr>childNodes := c\<rparr> \<Longrightarrow>
     attributes n' = attributes n \<and> styleProps n' = styleProps n \<and> properties n' = properties n"
  by simp





text \<open>
  What the binding of all props leaves of an observation \<open>P\<close> of the state that
  only the entry under \<open>k\<close> can change: what that entry made of it.
\<close>

lemma applyProps_others:
  assumes "k \<notin> fst ` set props" "e < length (nodes s)"
    and "\<And>entry t. fst entry \<noteq> k \<Longrightarrow> e < length (nodes t) \<Longrightarrow> P (snd (applyProp env type e entry t)) = P t"
  shows "P (snd (applyProps env type e props s)) = P s"
  using assms(1,2)
proof (induction props arbitrary: s)
  case Nil
  then show ?case by simp
next
  case (Cons x xs)
  obtain a s1 where ap: "applyProp env type e x s = (a, s1)"
    by (cases "applyProp env type e x s")
  have 1: "P s1 = P s"
    using assms(3) [of x s] Cons.prems ap by auto
  have 2: "e < length (nodes s1)"
    using length_applyProp [of env type e x s] ap Cons.prems by simp
  show ?case
    using ap 1 Cons.IH [OF _ 2] Cons.prems(1) by (cases a) auto
qed

lemma applyProps_entry:
  assumes "distinct (map fst props)" "(k, v) \<in> set props" "e < length (nodes s)"
    and "applyProps env type e props s = (Inr u, s')"
    and others: "\<And>entry t. fst entry \<noteq> k \<Longrightarrow> e < length (nodes t) \<Longrightarrow> P (snd (applyProp env type e entry t)) = P t"
  shows "\<exists>t. P t = P s \<and> e < length (nodes t) \<and> P s' = P (snd (applyProp env type e (k, v) t))"
  using assms(1-4)
proof (induction props arbitrary: s)
  case Nil
  then show ?case by simp
next
  case (Cons x xs)
  obtain a s1 where ap: "applyProp env type e x s = (a, s1)"
    by (cases "applyProp env type e x s")
  with Cons.prems(4) obtain w where a: "a = Inr w" and rest: "applyProps env type e xs s1 = (Inr u, s')"
    by (cases a) auto
  have 2: "e < length (nodes s1)"
    using length_applyProp [of env type e x s] ap Cons.prems by simp
  show ?case
  proof (cases "x = (k, v)")
    case True
    then have nin: "k \<notin> fst ` set xs"
      using Cons.prems(1) by auto
    have "P s' = P s1"
      using applyProps_others [OF nin 2, of P env type] others rest by simp
    then show ?thesis
      using ap True Cons.prems(3) by auto
  next
    case False
    then have in_xs: "(k, v) \<in> set xs" and ne: "fst x \<noteq> k"
      using Cons.prems(1,2) by (auto simp: image_iff)
    have "P s1 = P s"
      using others [OF ne Cons.prems(3)] ap by simp
    then show ?thesis
      using Cons.IH [OF _ in_xs 2 rest] Cons.prems(1) by auto
  qed
qed

text \<open>
  The node that \<^verbatim>\<open>renderToDOM\<close> returns for a fragment is the empty group it
  created first, but for its children.
\<close>

lemma render_fragment:
  assumes inert: "dom_inert env"
    and r: "renderToDOM n env (CNode (VNode (Tag ''fragment'') props children)) s = Some (Inr e, s')"
  shows "e = length (nodes s)
         \<and> nodes s' ! e = (new_node FragmentNode)\<lparr>childNodes := childNodes (nodes s' ! e)\<rparr>"
proof -
  from r obtain m where n: "n = Suc m"
    by (cases n) auto
  let ?e = "length (nodes s)"
  let ?s1 = "s\<lparr>nodes := nodes s @ [new_node FragmentNode]\<rparr>"
  from r n obtain w where ac: "appendChildren m env ?e children ?s1 = Some (Inr w, s')" and e: "e = ?e"
    by (auto simp: create_node_def split: option.splits sum.splits prod.splits)
  have "append_post ?e ?s1 s'"
    using frame(2) [OF inert ac] by simp
  then have "nodes s' ! ?e = (nodes ?s1 ! ?e)\<lparr>childNodes := childNodes (nodes s' ! ?e)\<rparr>"
    by (simp add: append_post_def)
  then show ?thesis
    using e by simp
qed


text \<open>The property that an entry assigns, and what the other entries leave of it.\<close>

lemma properties_applyStyles:
  "e < length (nodes s) \<Longrightarrow> properties (nodes (fold (applyStyle e) entries s) ! e) = properties (nodes s ! e)"
  by (induction entries arbitrary: s)
     (auto simp: applyStyle_def setStyle_def length_update_node nth_update_node split: prod.splits)

lemma applyProp_other_property:
  assumes "fst entry \<noteq> k" "k \<noteq> ''className''" "e < length (nodes s)"
  shows "map_of (properties (nodes (snd (applyProp env type e entry s)) ! e)) k
         = map_of (properties (nodes s ! e)) k"
  using assms
  by (cases entry)
     (auto simp: applyProp_def Let_def setAttribute_def setProperty_def addEventListener_def
        nth_update_node length_update_node properties_applyStyles update_conv' split: jsval.splits)


lemma applyProp_value:
  assumes "e < length (nodes s)"
  shows "map_of (properties (nodes (snd (applyProp env type e (''value'', v) s)) ! e)) ''value'' = Some v"
    and "type = ''input'' \<or> type = ''select'' \<or> type = ''textarea'' \<Longrightarrow>
           map_of (attributes (nodes (snd (applyProp env type e (''value'', v) s)) ! e)) ''value'' = Some (String_of env v)"
  using assms
  by (simp_all add: applyProp_def startsWith_def Let_def setAttribute_def setProperty_def
        nth_update_node length_update_node update_conv')

lemma applyProp_checked:
  assumes "e < length (nodes s)"
  shows "map_of (properties (nodes (snd (applyProp env type e (''checked'', v) s)) ! e)) ''checked'' = Some v"
  using assms
  by (simp add: applyProp_def startsWith_def Let_def setProperty_def nth_update_node update_conv')

lemma applyProp_disabled:
  assumes "e < length (nodes s)"
  shows "map_of (properties (nodes (snd (applyProp env type e (''disabled'', v) s)) ! e)) ''disabled'' = Some v"
  using assms
  by (simp add: applyProp_def startsWith_def Let_def setProperty_def nth_update_node update_conv')


text \<open>
  C7, as the code has it. On a host element (any tag but \<^verbatim>\<open>fragment\<close>), for a
  key that is none of \<^verbatim>\<open>key\<close>, \<^verbatim>\<open>ref\<close>, \<^verbatim>\<open>_onMounted\<close>, \<^verbatim>\<open>className\<close>,
  \<^verbatim>\<open>style\<close>, \<^verbatim>\<open>value\<close>, \<^verbatim>\<open>checked\<close>, \<^verbatim>\<open>disabled\<close> and does not begin with
  \<^verbatim>\<open>on\<close>: the value \<^verbatim>\<open>true\<close> gives the attribute with the empty string as
  value, the values \<^verbatim>\<open>false\<close>, \<^verbatim>\<open>null\<close> and \<^verbatim>\<open>undefined\<close> give no attribute, and
  any other value gives the attribute with the value's string form (first
  conjunct). The keys \<^verbatim>\<open>value\<close>, \<^verbatim>\<open>checked\<close> and \<^verbatim>\<open>disabled\<close> are assigned as
  properties of the element, whatever the value (second conjunct), and \<^verbatim>\<open>value\<close>
  is set as an attribute as well, in its string form, on \<^verbatim>\<open>input\<close>, \<^verbatim>\<open>select\<close>
  and \<^verbatim>\<open>textarea\<close> (third). The props of a fragment are not applied: it has no
  attribute and no property (fourth). (The props are an object, so their keys
  are distinct; user code is taken to leave the host's nodes alone.)
\<close>

theorem boolean_attribute_law:
  assumes "dom_inert env" "distinct (map fst props)" "(key, v) \<in> set props"
    and "renderToDOM n env (CNode (VNode (Tag type) props children)) s = Some (Inr e, s')"
  shows "(type \<noteq> ''fragment'' \<and> \<not> special_key key \<longrightarrow>
            map_of (attributes (nodes s' ! e)) key =
              (if v = Bool True then Some []
               else if v = Bool False \<or> v = Null \<or> v = Undefined then None
               else Some (String_of env v)))
         \<and> (type \<noteq> ''fragment'' \<and> (key = ''value'' \<or> key = ''checked'' \<or> key = ''disabled'') \<longrightarrow>
              map_of (properties (nodes s' ! e)) key = Some v)
         \<and> (key = ''value'' \<and> (type = ''input'' \<or> type = ''select'' \<or> type = ''textarea'') \<longrightarrow>
              map_of (attributes (nodes s' ! e)) key = Some (String_of env v))
         \<and> (type = ''fragment'' \<longrightarrow> attributes (nodes s' ! e) = [] \<and> properties (nodes s' ! e) = [])"
proof (cases "type = ''fragment''")
  case True
  have "nodes s' ! e = (new_node FragmentNode)\<lparr>childNodes := childNodes (nodes s' ! e)\<rparr>"
    using render_fragment [OF assms(1)] assms(4) True by simp
  from childNodes_update_attributes [OF this] True show ?thesis
    by (simp add: new_node_def)
next
  case False
  let ?s1 = "s\<lparr>nodes := nodes s @ [new_node (ElementNode type)]\<rparr>"
  from render_element [OF assms(1) False assms(4)] obtain u s2 where e: "e = length (nodes s)"
    and ap: "applyProps env type e props ?s1 = (Inr u, s2)"
    and n: "nodes s' ! e = (nodes s2 ! e)\<lparr>childNodes := childNodes (nodes s' ! e)\<rparr>"
    by auto
  have e1: "e < length (nodes ?s1)"
    using e by simp
  have keep: "attributes (nodes s' ! e) = attributes (nodes s2 ! e)"
    "properties (nodes s' ! e) = properties (nodes s2 ! e)"
    using childNodes_update_attributes [OF n] by simp_all
  have law: "\<not> special_key key \<Longrightarrow>
      map_of (attributes (nodes s' ! e)) key =
        (if v = Bool True then Some []
         else if v = Bool False \<or> v = Null \<or> v = Undefined then None
         else Some (String_of env v))"
    using applyProps_attribute [OF assms(2,3) _ e1 ap] e keep by (auto simp: new_node_def)
  have assigned: "key = ''value'' \<or> key = ''checked'' \<or> key = ''disabled'' \<Longrightarrow>
      map_of (properties (nodes s' ! e)) key = Some v"
  proof -
    assume k: "key = ''value'' \<or> key = ''checked'' \<or> key = ''disabled''"
    then have nc: "key \<noteq> ''className''"
      by auto
    from applyProps_entry [OF assms(2,3) e1 ap, of "\<lambda>t. map_of (properties (nodes t ! e)) key"]
    obtain t where t: "e < length (nodes t)"
      "map_of (properties (nodes s2 ! e)) key = map_of (properties (nodes (snd (applyProp env type e (key, v) t)) ! e)) key"
      using applyProp_other_property [OF _ nc] by blast
    show ?thesis
      using k t applyProp_value(1) [OF t(1)] applyProp_checked [OF t(1)] applyProp_disabled [OF t(1)] keep
      by auto
  qed
  have mirrored: "key = ''value'' \<Longrightarrow> type = ''input'' \<or> type = ''select'' \<or> type = ''textarea'' \<Longrightarrow>
      map_of (attributes (nodes s' ! e)) key = Some (String_of env v)"
  proof -
    assume k: "key = ''value''" and ty: "type = ''input'' \<or> type = ''select'' \<or> type = ''textarea''"
    from applyProps_entry [OF assms(2,3) e1 ap, of "\<lambda>t. map_of (attributes (nodes t ! e)) key"]
    obtain t where t: "e < length (nodes t)"
      "map_of (attributes (nodes s2 ! e)) key = map_of (attributes (nodes (snd (applyProp env type e (key, v) t)) ! e)) key"
      using applyProp_other_attribute by blast
    show ?thesis
      using k t applyProp_value(2) [OF t(1) ty] keep by simp
  qed
  from False law assigned mirrored show ?thesis
    by blast
qed

lemma render_demo_input:
  "renderToDOM 1 demo_env (CNode (VNode (Tag ''input'') demo_input_props [])) init_rt = Some (Inr 0, demo_input)"
  by (simp add: demo_input_props_def demo_input_def demo_defs host_defs)

lemma render_demo_value_input:
  "renderToDOM 1 demo_env (CNode (VNode (Tag ''input'') demo_value_props [])) init_rt
     = Some (Inr 0, demo_value_input)"
  by (simp add: demo_value_props_def demo_value_input_def demo_defs host_defs)

lemma render_demo_fragment:
  "renderToDOM 1 demo_env (CNode (VNode (Tag ''fragment'') [(''hidden'', Bool True)] [])) init_rt
     = Some (Inr 0, demo_fragment)"
  by (simp add: demo_fragment_def demo_defs host_defs)

text \<open>
  The examples: \<^verbatim>\<open>required: true\<close> and \<^verbatim>\<open>hidden: false\<close> on an \<^verbatim>\<open>input\<close>;
  \<^verbatim>\<open>value: 'abc'\<close> and \<^verbatim>\<open>disabled: false\<close> on an \<^verbatim>\<open>input\<close>; \<^verbatim>\<open>hidden: true\<close> on a
  fragment.
\<close>

theorem boolean_attribute_law_witness:
  "dom_inert demo_env \<and> distinct (map fst demo_input_props) \<and> distinct (map fst demo_value_props)
   \<and> (''required'', Bool True) \<in> set demo_input_props \<and> (''hidden'', Bool False) \<in> set demo_input_props
   \<and> (''value'', Str ''abc'') \<in> set demo_value_props \<and> (''disabled'', Bool False) \<in> set demo_value_props
   \<and> \<not> special_key ''required'' \<and> \<not> special_key ''hidden''
   \<and> renderToDOM 1 demo_env (CNode (VNode (Tag ''input'') demo_input_props [])) init_rt = Some (Inr 0, demo_input)
   \<and> map_of (attributes (nodes demo_input ! 0)) ''required'' = Some []
   \<and> map_of (attributes (nodes demo_input ! 0)) ''hidden'' = None
   \<and> renderToDOM 1 demo_env (CNode (VNode (Tag ''input'') demo_value_props [])) init_rt
       = Some (Inr 0, demo_value_input)
   \<and> map_of (properties (nodes demo_value_input ! 0)) ''value'' = Some (Str ''abc'')
   \<and> map_of (attributes (nodes demo_value_input ! 0)) ''value'' = Some ''abc''
   \<and> map_of (properties (nodes demo_value_input ! 0)) ''disabled'' = Some (Bool False)
   \<and> renderToDOM 1 demo_env (CNode (VNode (Tag ''fragment'') [(''hidden'', Bool True)] [])) init_rt
       = Some (Inr 0, demo_fragment)
   \<and> attributes (nodes demo_fragment ! 0) = [] \<and> properties (nodes demo_fragment ! 0) = []"
proof -
  have d: "distinct (map fst demo_input_props)" "distinct (map fst demo_value_props)"
    "distinct (map fst [(''hidden'', Bool True)])"
    by (simp_all add: demo_input_props_def demo_value_props_def)
  have m: "(''required'', Bool True) \<in> set demo_input_props" "(''hidden'', Bool False) \<in> set demo_input_props"
    "(''value'', Str ''abc'') \<in> set demo_value_props" "(''disabled'', Bool False) \<in> set demo_value_props"
    "(''hidden'', Bool True) \<in> set [(''hidden'', Bool True)]"
    by (simp_all add: demo_input_props_def demo_value_props_def)
  have k: "\<not> special_key ''required''" "\<not> special_key ''hidden''"
    by (simp_all add: special_key_def startsWith_def)
  show ?thesis
    using boolean_attribute_law [OF dom_inert_demo d(1) m(1) render_demo_input]
      boolean_attribute_law [OF dom_inert_demo d(1) m(2) render_demo_input]
      boolean_attribute_law [OF dom_inert_demo d(2) m(3) render_demo_value_input]
      boolean_attribute_law [OF dom_inert_demo d(2) m(4) render_demo_value_input]
      boolean_attribute_law [OF dom_inert_demo d(3) m(5) render_demo_fragment]
      dom_inert_demo d m k render_demo_input render_demo_value_input render_demo_fragment
    by simp
qed

text \<open>
  C7 as stated fails for the keys the renderer treats on their own: with
  \<^verbatim>\<open>checked: true\<close> on an \<^verbatim>\<open>input\<close> the element has no attribute at all; the value
  is assigned to the element's property \<^verbatim>\<open>checked\<close>. It fails for the tag
  \<^verbatim>\<open>fragment\<close> too, whose props are not looked at.
\<close>

theorem boolean_attribute_law_counterexample:
  "renderToDOM 1 demo_env (CNode (createElement (Tag ''input'') (Some [(''checked'', Bool True)]) [])) init_rt
     = Some (Inr 0, demo_checkbox)
   \<and> attributes (nodes demo_checkbox ! 0) = []
   \<and> properties (nodes demo_checkbox ! 0) = [(''checked'', Bool True)]
   \<and> renderToDOM 1 demo_env (CNode (createElement (Tag ''fragment'') (Some [(''hidden'', Bool True)]) [])) init_rt
     = Some (Inr 0, demo_fragment)
   \<and> attributes (nodes demo_fragment ! 0) = []"
  by (simp add: demo_checkbox_def demo_fragment_def demo_defs host_defs)








section \<open>The render cursor\<close>

lemma String_of_at_cursor: "String_of (at_cursor env) v = String_of env v"
  by (cases v) (simp_all add: at_cursor_def)

lemma callback_at_cursor: "callback (at_cursor env) = callback env"
  by (simp add: at_cursor_def)

lemma applyProp_at_cursor: "applyProp (at_cursor env) type e entry s = applyProp env type e entry s"
  unfolding applyProp_def String_of_at_cursor ..

lemma applyProps_at_cursor: "applyProps (at_cursor env) type e props s = applyProps env type e props s"
  by (induction props arbitrary: s) (simp_all add: applyProp_at_cursor split: prod.splits sum.splits)

lemma onMounted_at_cursor: "onMounted (at_cursor env) props e s = onMounted env props e s"
  unfolding onMounted_def callback_at_cursor ..

lemma component_at_cursor:
  "component (at_cursor env) f props (s\<lparr>currentComponent := Some f, stateIndex := 0\<rparr>)
   = component env f props (s\<lparr>currentComponent := Some f, stateIndex := 0\<rparr>)"
  by (simp add: at_cursor_def)

lemma render_at_cursor:
  "renderToDOM n (at_cursor env) v s = renderToDOM n env v s"
  "appendChildren n (at_cursor env) p cs s = appendChildren n env p cs s"
proof (induction n env v s and n env p cs s rule: renderToDOM_appendChildren.induct)
  case (7 n env f props children s)
  then show ?case
    by (simp add: component_at_cursor split: prod.splits sum.splits)
next
  case (8 n env type props children s)
  then show ?case
    by (simp add: applyProps_at_cursor onMounted_at_cursor split: prod.splits sum.splits option.splits)
next
  case (10 n env parent c cs s)
  then show ?case
    by (simp split: prod.splits sum.splits option.splits)
qed simp_all

text \<open>The host operations and the binding of props leave the cursor alone.\<close>

lemma cur_update_node: "currentComponent (update_node i f s) = currentComponent s"
  by (simp add: update_node_def)

lemma cur_fold_update: "currentComponent (fold (\<lambda>k. update_node k f) ks s) = currentComponent s"
  by (induction ks arbitrary: s) (simp_all add: cur_update_node)

lemma cur_appendChild: "currentComponent (appendChild p c s) = currentComponent s"
  by (simp add: appendChild_def adopt_def detach_def Let_def cur_update_node cur_fold_update
        split: option.splits)

lemma cur_applyStyles: "currentComponent (fold (applyStyle e) entries s) = currentComponent s"
  by (induction entries arbitrary: s)
     (auto simp: applyStyle_def setStyle_def cur_update_node split: prod.splits)

lemma cur_applyProp: "currentComponent (snd (applyProp env type e entry s)) = currentComponent s"
  by (cases entry)
     (simp add: applyProp_def Let_def setAttribute_def setProperty_def addEventListener_def
        cur_update_node cur_applyStyles split: jsval.splits)

lemma cur_applyProps: "currentComponent (snd (applyProps env type e props s)) = currentComponent s"
proof (induction props arbitrary: s)
  case Nil
  show ?case by simp
next
  case (Cons x xs)
  show ?case
    using cur_applyProp [of env type e x s] Cons [of "snd (applyProp env type e x s)"]
    by (auto split: prod.splits sum.splits)
qed

lemma cur_onMounted:
  "cursor_inert env \<Longrightarrow> currentComponent (snd (onMounted env props e s)) = currentComponent s"
  by (simp add: onMounted_def cursor_inert_def split: option.splits jsval.splits)

lemma cursor_stays_clear:
  "cursor_inert env \<Longrightarrow> renderToDOM n env v s = Some (Inr e, s') \<Longrightarrow> currentComponent s = None
     \<Longrightarrow> currentComponent s' = None"
  "cursor_inert env \<Longrightarrow> appendChildren n env p cs s = Some (Inr u, s') \<Longrightarrow> currentComponent s = None
     \<Longrightarrow> currentComponent s' = None"
proof (induction n env v s and n env p cs s arbitrary: e s' and u s' rule: renderToDOM_appendChildren.induct)
  case (7 n env f props children s)
  obtain a b where c: "component env f props (s\<lparr>currentComponent := Some f, stateIndex := 0\<rparr>) = (a, b)"
    by (cases "component env f props (s\<lparr>currentComponent := Some f, stateIndex := 0\<rparr>)")
  with "7.prems"(2) obtain result where a: "a = Inr result"
    and r: "renderToDOM n env result (b\<lparr>currentComponent := None\<rparr>) = Some (Inr e, s')"
    by (cases a) auto
  show ?case
    using "7.IH" [OF c [symmetric] a "7.prems"(1) r] by simp
next
  case (8 n env type props children s)
  let ?e = "length (nodes s)"
  show ?case
  proof (cases "type = ''fragment''")
    case True
    let ?s1 = "s\<lparr>nodes := nodes s @ [new_node FragmentNode]\<rparr>"
    have cn: "(?e, ?s1) = create_node FragmentNode s"
      by (simp add: create_node_def)
    from True "8.prems"(2) obtain u where
      ac: "appendChildren n env ?e children ?s1 = Some (Inr u, s')"
      by (auto simp: create_node_def split: option.splits sum.splits)
    show ?thesis
      using "8.IH"(1) [OF True cn "8.prems"(1) ac] "8.prems"(3) by simp
  next
    case False
    let ?s1 = "s\<lparr>nodes := nodes s @ [new_node (ElementNode type)]\<rparr>"
    have cn: "(?e, ?s1) = create_node (ElementNode type) s"
      by (simp add: create_node_def)
    obtain a s2 where ap: "applyProps env type ?e props ?s1 = (a, s2)"
      by (cases "applyProps env type ?e props ?s1")
    from False "8.prems"(2) ap obtain y where a: "a = Inr y"
      by (cases a) (auto simp: create_node_def)
    from False "8.prems"(2) ap a obtain u s3 where
      ac: "appendChildren n env ?e children s2 = Some (Inr u, s3)"
      by (auto simp: create_node_def split: option.splits sum.splits)
    from False "8.prems"(2) ap a ac obtain z where om: "onMounted env props ?e s3 = (Inr z, s')"
      by (auto simp: create_node_def split: prod.splits sum.splits)
    have "currentComponent s2 = None"
      using cur_applyProps [of env type ?e props ?s1] ap "8.prems"(3) by simp
    then have "currentComponent s3 = None"
      using "8.IH"(2) [OF False cn ap [symmetric] a "8.prems"(1) ac] by simp
    then show ?thesis
      using cur_onMounted [OF "8.prems"(1), of props ?e s3] om by simp
  qed
next
  case (10 n env parent c cs s)
  from "10.prems"(2) obtain a s1 where r1: "renderToDOM n env c s = Some (a, s1)"
    by (auto split: option.splits)
  with "10.prems"(2) obtain node where a: "a = Inr node"
    and rest: "appendChildren n env parent cs (appendChild parent node s1) = Some (Inr u, s')"
    by (cases a) auto
  have "currentComponent s1 = None"
    using "10.IH"(1) [OF "10.prems"(1) _ "10.prems"(3)] r1 a by simp
  then have "currentComponent (appendChild parent node s1) = None"
    by (simp add: cur_appendChild)
  then show ?case
    using "10.IH"(2) [OF r1 refl a "10.prems"(1) rest] by simp
qed (auto simp: create_node_def)

text \<open>
  C5, as the code has it. When a component descriptor is rendered and the render
  returns a node, the cursor's component is \<^verbatim>\<open>null\<close> afterwards. When the
  component function throws, the exception leaves \<^verbatim>\<open>renderToDOM\<close> with the state
  exactly as the component left it: nothing clears the cursor. And the component
  function is called with the cursor at itself and slot \<open>0\<close>: rendering is the same
  when every component function is made to set the cursor to itself. (Callbacks
  are taken to return with the cursor's component as they found it.)
\<close>

theorem cursor_cleared_on_normal_return:
  assumes "cursor_inert env"
  shows "(renderToDOM n env (CNode (VNode (Comp f) props children)) s = Some (Inr e, s')
            \<longrightarrow> currentComponent s' = None)
         \<and> (component env f props (s\<lparr>currentComponent := Some f, stateIndex := 0\<rparr>) = (Inl x, s1)
            \<longrightarrow> renderToDOM (Suc n) env (CNode (VNode (Comp f) props children)) s = Some (Inl x, s1))
         \<and> renderToDOM n (at_cursor env) (CNode (VNode (Comp f) props children)) s
             = renderToDOM n env (CNode (VNode (Comp f) props children)) s"
proof (intro conjI impI)
  assume r: "renderToDOM n env (CNode (VNode (Comp f) props children)) s = Some (Inr e, s')"
  then obtain m where n: "n = Suc m"
    by (cases n) auto
  obtain a b where c: "component env f props (s\<lparr>currentComponent := Some f, stateIndex := 0\<rparr>) = (a, b)"
    by (cases "component env f props (s\<lparr>currentComponent := Some f, stateIndex := 0\<rparr>)")
  with r n obtain result where "renderToDOM m env result (b\<lparr>currentComponent := None\<rparr>) = Some (Inr e, s')"
    by (cases a) auto
  from cursor_stays_clear(1) [OF assms this] show "currentComponent s' = None"
    by simp
next
  assume "component env f props (s\<lparr>currentComponent := Some f, stateIndex := 0\<rparr>) = (Inl x, s1)"
  then show "renderToDOM (Suc n) env (CNode (VNode (Comp f) props children)) s = Some (Inl x, s1)"
    by simp
next
  show "renderToDOM n (at_cursor env) (CNode (VNode (Comp f) props children)) s
        = renderToDOM n env (CNode (VNode (Comp f) props children)) s"
    by (rule render_at_cursor)
qed

lemma render_demo_root:
  "renderToDOM 3 demo_env (CNode (VNode (Comp 0) [] [])) init_rt = Some (Inr 0, demo_rendered)"
  by (simp add: demo_rendered_def demo_defs host_defs hook_defs show_int_digit eval_nat_numeral)

lemma demo_failing:
  "component demo_env 1 [] (init_rt\<lparr>currentComponent := Some 1, stateIndex := 0\<rparr>)
     = (Inl (Thrown (Str ''failed'')), demo_failed)"
  by (simp add: demo_env_def Failing_def demo_failed_def init_rt_def)

text \<open>The example: the counter returns a node, the other component throws.\<close>

theorem cursor_cleared_on_normal_return_witness:
  "cursor_inert demo_env
   \<and> renderToDOM 3 demo_env (CNode (VNode (Comp 0) [] [])) init_rt = Some (Inr 0, demo_rendered)
   \<and> currentComponent demo_rendered = None
   \<and> component demo_env 1 [] (init_rt\<lparr>currentComponent := Some 1, stateIndex := 0\<rparr>)
       = (Inl (Thrown (Str ''failed'')), demo_failed)
   \<and> renderToDOM (Suc 0) demo_env (CNode (VNode (Comp 1) [] [])) init_rt
       = Some (Inl (Thrown (Str ''failed'')), demo_failed)"
  using cursor_cleared_on_normal_return [OF cursor_inert_demo,
      where n = 3 and f = 0 and props = "[]" and children = "[]" and s = init_rt and e = 0
        and s' = demo_rendered]
    cursor_cleared_on_normal_return [OF cursor_inert_demo,
      where n = 0 and f = 1 and props = "[]" and children = "[]" and s = init_rt
        and x = "Thrown (Str ''failed'')" and ?s1.0 = demo_failed]
    cursor_inert_demo render_demo_root demo_failing
  by simp

text \<open>
  C5 as stated fails where the component throws: after \<^verbatim>\<open>renderToDOM\<close> has thrown,
  the cursor's component is still the component that threw, and a later
  \<^verbatim>\<open>useState\<close> outside any render gets a slot of that component.
\<close>

theorem cursor_leaks_counterexample:
  "renderToDOM 2 demo_env (CNode (createElement (Comp 1) None [])) init_rt
     = Some (Inl (Thrown (Str ''failed'')), demo_failed)
   \<and> currentComponent demo_failed = Some 1
   \<and> fst (useState (Num 7) demo_failed) = (Some 1, 0)"
  by (simp add: demo_failed_def demo_defs hook_defs eval_nat_numeral)

section \<open>The slots of a component\<close>

text \<open>
  A write to one slot leaves the others as they are, \<^verbatim>\<open>useState\<close> leaves every
  slot that holds a value as it is, and the host operations do not touch the
  slots.
\<close>

lemma js_read_write_other: "j \<noteq> i \<Longrightarrow> js_read (js_write xs i v) j = js_read xs j"
  by (auto simp: js_read_def js_write_def nth_append)

lemma js_read_Nil: "js_read [] j = Undefined"
  by (simp add: js_read_def)

lemma slot_write_slot_other: "h' \<noteq> h \<Longrightarrow> slot (write_slot h v s) h' = slot s h'"
  by (cases h, cases h')
     (auto simp: slot_def write_slot_def js_read_write_other js_read_Nil split: option.splits)

lemma useState_keeps_slot:
  "slot s h \<noteq> Undefined \<Longrightarrow> slot (snd (useState initialValue s)) h = slot s h"
proof (cases "h = (currentComponent s, stateIndex s)")
  case True
  assume "slot s h \<noteq> Undefined"
  with True useState_slot [of initialValue s] show ?thesis
    by simp
next
  case False
  then show ?thesis
    by (simp add: useState_def Let_def slot_write_slot_other slot_add_empty slot_stateIndex)
qed

lemma slot_cong: "componentStates a = componentStates b \<Longrightarrow> slot a h = slot b h"
  by (simp add: slot_def)

lemma cs_update_node: "componentStates (update_node i f s) = componentStates s"
  by (simp add: update_node_def)

lemma cs_fold_update: "componentStates (fold (\<lambda>k. update_node k f) ks s) = componentStates s"
  by (induction ks arbitrary: s) (simp_all add: cs_update_node)

lemma cs_adopt: "componentStates (adopt p c s) = componentStates s"
  by (simp add: adopt_def detach_def cs_update_node cs_fold_update split: option.splits)

lemma cs_appendChild: "componentStates (appendChild p c s) = componentStates s"
  by (simp add: appendChild_def Let_def cs_update_node cs_adopt)

lemma cs_replaceChild: "componentStates (replaceChild p c old s) = componentStates s"
  by (simp add: replaceChild_def Let_def cs_update_node cs_adopt)

lemma cs_clear_children: "componentStates (clear_children c s) = componentStates s"
  by (simp add: clear_children_def cs_update_node cs_fold_update)

lemma cs_attach_rendered: "componentStates (attach_rendered d s) = componentStates s"
  by (simp add: attach_rendered_def Let_def cs_replaceChild cs_appendChild cs_clear_children
        split: option.splits prod.splits)

lemma slot_appendChild: "slot (appendChild p c s) h = slot s h"
  by (rule slot_cong [OF cs_appendChild])

lemma slot_attach_rendered: "slot (attach_rendered d s) h = slot s h"
  by (rule slot_cong [OF cs_attach_rendered])

lemma cs_applyStyles: "componentStates (fold (applyStyle e) entries s) = componentStates s"
  by (induction entries arbitrary: s)
     (auto simp: applyStyle_def setStyle_def cs_update_node split: prod.splits)

lemma cs_applyProp: "componentStates (snd (applyProp env type e entry s)) = componentStates s"
  by (cases entry)
     (simp add: applyProp_def Let_def setAttribute_def setProperty_def addEventListener_def
        cs_update_node cs_applyStyles split: jsval.splits)

lemma cs_applyProps: "componentStates (snd (applyProps env type e props s)) = componentStates s"
proof (induction props arbitrary: s)
  case Nil
  show ?case by simp
next
  case (Cons x xs)
  show ?case
    using cs_applyProp [of env type e x s] Cons [of "snd (applyProp env type e x s)"]
    by (auto split: prod.splits sum.splits)
qed

text \<open>
  A render leaves a slot that holds a value as it is, if user code does, and so
  the value that the setter assigns is the value of the slot when the setter
  returns, whether its render returns a node or throws.
\<close>

lemma stable_component:
  "hook_stable env h \<Longrightarrow> component env f props s = (a, b) \<Longrightarrow> slot s h \<noteq> Undefined \<Longrightarrow> slot b h = slot s h"
  by (metis hook_stable_def snd_conv)

lemma stable_onMounted:
  "hook_stable env h \<Longrightarrow> onMounted env props e s = (a, b) \<Longrightarrow> slot s h \<noteq> Undefined \<Longrightarrow> slot b h = slot s h"
  by (auto simp: onMounted_def hook_stable_def split: option.splits jsval.splits)
     (metis snd_conv)

lemma render_keeps_slot:
  "hook_stable env h \<Longrightarrow> renderToDOM n env v s = Some (r, s') \<Longrightarrow> slot s h \<noteq> Undefined
     \<Longrightarrow> slot s' h = slot s h"
  "hook_stable env h \<Longrightarrow> appendChildren n env p cs s = Some (u, s') \<Longrightarrow> slot s h \<noteq> Undefined
     \<Longrightarrow> slot s' h = slot s h"
proof (induction n env v s and n env p cs s arbitrary: r s' and u s' rule: renderToDOM_appendChildren.induct)
  case (7 n env f props children s)
  let ?s0 = "s\<lparr>currentComponent := Some f, stateIndex := 0\<rparr>"
  obtain a b where c: "component env f props ?s0 = (a, b)"
    by (cases "component env f props ?s0")
  have s0: "slot ?s0 h = slot s h"
    by (simp add: slot_def)
  have b: "slot b h = slot s h"
    using stable_component [OF "7.prems"(1) c] s0 "7.prems"(3) by simp
  show ?case
  proof (cases a)
    case (Inl x)
    with c "7.prems"(2) b show ?thesis
      by auto
  next
    case (Inr result)
    with c "7.prems"(2) have rr: "renderToDOM n env result (b\<lparr>currentComponent := None\<rparr>) = Some (r, s')"
      by simp
    have "slot (b\<lparr>currentComponent := None\<rparr>) h = slot s h"
      using b by (simp add: slot_def)
    then show ?thesis
      using "7.IH" [OF c [symmetric] Inr "7.prems"(1) rr] "7.prems"(3) by simp
  qed
next
  case (8 n env type props children s)
  let ?e = "length (nodes s)"
  show ?case
  proof (cases "type = ''fragment''")
    case True
    let ?s1 = "s\<lparr>nodes := nodes s @ [new_node FragmentNode]\<rparr>"
    have cn: "(?e, ?s1) = create_node FragmentNode s"
      by (simp add: create_node_def)
    from True "8.prems"(2) obtain u where ac: "appendChildren n env ?e children ?s1 = Some (u, s')"
      by (auto simp: create_node_def split: option.splits sum.splits prod.splits)
    have "slot ?s1 h = slot s h"
      by (simp add: slot_def)
    then show ?thesis
      using "8.IH"(1) [OF True cn "8.prems"(1) ac] "8.prems"(3) by simp
  next
    case False
    let ?s1 = "s\<lparr>nodes := nodes s @ [new_node (ElementNode type)]\<rparr>"
    have cn: "(?e, ?s1) = create_node (ElementNode type) s"
      by (simp add: create_node_def)
    obtain a s2 where ap: "applyProps env type ?e props ?s1 = (a, s2)"
      by (cases "applyProps env type ?e props ?s1")
    have s2: "slot s2 h = slot s h"
      using cs_applyProps [of env type ?e props ?s1] ap by (simp add: slot_def)
    show ?thesis
    proof (cases a)
      case (Inl x)
      with False "8.prems"(2) ap s2 show ?thesis
        by (auto simp: create_node_def)
    next
      case (Inr y)
      from False "8.prems"(2) ap Inr obtain u s3 where
        ac: "appendChildren n env ?e children s2 = Some (u, s3)"
        by (auto simp: create_node_def split: option.splits)
      have s3: "slot s3 h = slot s h"
        using "8.IH"(2) [OF False cn ap [symmetric] Inr "8.prems"(1) ac] s2 "8.prems"(3) by simp
      show ?thesis
      proof (cases u)
        case (Inl x)
        with False "8.prems"(2) ap \<open>a = Inr y\<close> ac s3 show ?thesis
          by (auto simp: create_node_def)
      next
        case (Inr z)
        obtain w s4 where om: "onMounted env props ?e s3 = (w, s4)"
          by (cases "onMounted env props ?e s3")
        have "slot s4 h = slot s h"
          using stable_onMounted [OF "8.prems"(1) om] s3 "8.prems"(3) by simp
        moreover have "s' = s4"
          using False "8.prems"(2) ap \<open>a = Inr y\<close> ac Inr om
          by (auto simp: create_node_def split: sum.splits)
        ultimately show ?thesis
          by simp
      qed
    qed
  qed
next
  case (10 n env parent c cs s)
  from "10.prems"(2) obtain a s1 where r1: "renderToDOM n env c s = Some (a, s1)"
    by (auto split: option.splits)
  have s1: "slot s1 h = slot s h"
    using "10.IH"(1) [OF "10.prems"(1) r1 "10.prems"(3)] .
  show ?case
  proof (cases a)
    case (Inl x)
    with r1 "10.prems"(2) s1 show ?thesis
      by auto
  next
    case (Inr node)
    let ?s2 = "appendChild parent node s1"
    have rest: "appendChildren n env parent cs ?s2 = Some (u, s')"
      using r1 Inr "10.prems"(2) by simp
    have "slot ?s2 h = slot s h"
      using s1 by (simp add: slot_appendChild)
    then show ?thesis
      using "10.IH"(2) [OF r1 refl Inr "10.prems"(1) rest] "10.prems"(3) by simp
  qed
qed (auto simp: create_node_def slot_def)

lemma strict_eq_defined: "strict_eq x v \<Longrightarrow> v \<noteq> Undefined \<Longrightarrow> x \<noteq> Undefined"
  by (cases v) auto

lemma setter_keeps_update:
  assumes "hook_stable env h" "v \<noteq> Undefined" "setter n env h v s = Some (r, s')"
  shows "slot s' h = (if strict_eq (slot s h) v then slot s h else v)"
proof (cases "strict_eq (slot s h) v")
  case True
  with assms(3) show ?thesis
    by (simp add: setter_def)
next
  case False
  let ?s1 = "write_slot h v s"
  have w: "slot ?s1 h = v"
    by (rule slot_write_slot)
  show ?thesis
  proof (cases "rootVNode ?s1")
    case None
    with False assms(3) w show ?thesis
      by (simp add: setter_def)
  next
    case (Some root)
    show ?thesis
    proof (cases "rootContainer ?s1")
      case None
      with False Some assms(3) w show ?thesis
        by (simp add: setter_def)
    next
      case (Some c)
      let ?s2 = "?s1\<lparr>stateIndex := 0, currentComponent := None\<rparr>"
      have w2: "slot ?s2 h = v"
        using w by (simp add: slot_def)
      from False \<open>rootVNode ?s1 = Some root\<close> Some assms(3)
      obtain a s3 where rd: "renderToDOM n env (CNode root) ?s2 = Some (a, s3)"
        by (auto simp: setter_def split: option.splits)
      have s3: "slot s3 h = v"
        using render_keeps_slot(1) [OF assms(1) rd] w2 assms(2) by simp
      show ?thesis
      proof (cases a)
        case (Inl x)
        with False \<open>rootVNode ?s1 = Some root\<close> Some assms(3) rd s3 show ?thesis
          by (simp add: setter_def)
      next
        case (Inr newDom)
        with False \<open>rootVNode ?s1 = Some root\<close> Some assms(3) rd
        have "s' = attach_rendered newDom s3"
          by (simp add: setter_def)
        then show ?thesis
          using s3 False by (simp add: slot_attach_rendered)
      qed
    qed
  qed
qed


text \<open>The counter only calls \<^verbatim>\<open>useState\<close>.\<close>

lemma snd_Counter:
  "snd (Counter props s)
   = snd (useState (case map_of props ''initialCount'' of
                      Some v \<Rightarrow> if truthy v then v else Num 0 | None \<Rightarrow> Num 0) s)"
  by (simp add: Counter_def Let_def split: prod.splits)

lemma hook_stable_demo: "hook_stable demo_env h"
proof -
  have "slot (snd (Counter props s)) h = slot s h" if "slot s h \<noteq> Undefined" for props s
    using useState_keeps_slot [OF that] by (simp add: snd_Counter)
  then show ?thesis
    by (simp add: hook_stable_def demo_env_def Failing_def)
qed

text \<open>
  \<^verbatim>\<open>useState\<close> at a slot that holds a value answers with the hook of that slot
  and changes nothing but the slot index; and of two calls at one slot, the
  second finds what the first left there.
\<close>

lemma slot_cursor: "slot (s\<lparr>currentComponent := c, stateIndex := i\<rparr>) h = slot s h"
  by (simp add: slot_def)

lemma useState_defined_slot:
  assumes "slot s (Some f, i) \<noteq> Undefined"
  shows "useState init (s\<lparr>currentComponent := Some f, stateIndex := i\<rparr>)
         = ((Some f, i), s\<lparr>currentComponent := Some f, stateIndex := i + 1\<rparr>)"
proof -
  let ?t = "s\<lparr>currentComponent := Some f, stateIndex := i\<rparr>"
  obtain states where k: "componentStates s (Some f) = Some states"
    using assms by (cases "componentStates s (Some f)") (simp_all add: slot_def)
  have d: "slot ?t (Some f, i) \<noteq> Undefined"
    using assms by (simp add: slot_def)
  show ?thesis
    using k d by (simp add: useState_def Let_def strict_eq_Undefined)
qed

lemma useState_twice:
  "slot (snd (useState init2 ((snd (useState init1 (t\<lparr>currentComponent := Some f, stateIndex := i\<rparr>)))
                                \<lparr>currentComponent := Some f, stateIndex := i\<rparr>))) (Some f, i)
   = (if slot t (Some f, i) = Undefined then (if init1 = Undefined then init2 else init1)
      else slot t (Some f, i))"
proof -
  let ?t0 = "t\<lparr>currentComponent := Some f, stateIndex := i\<rparr>"
  let ?t1 = "snd (useState init1 ?t0)"
  let ?t2 = "?t1\<lparr>currentComponent := Some f, stateIndex := i\<rparr>"
  have a: "slot ?t1 (Some f, i) = (if slot t (Some f, i) = Undefined then init1 else slot t (Some f, i))"
    using useState_slot [of init1 ?t0] by (simp add: slot_cursor)
  have b: "slot (snd (useState init2 ?t2)) (Some f, i)
           = (if slot ?t1 (Some f, i) = Undefined then init2 else slot ?t1 (Some f, i))"
    using useState_slot [of init2 ?t2] by (simp add: slot_cursor)
  show ?thesis
    unfolding b a by simp
qed

text \<open>
  C4, as the code has it. Where a descriptor stands and what its props and
  children are has no part in the cursor its component function runs with: that
  is the function itself and slot \<open>0\<close>, for every descriptor of the function and
  in every render (first conjunct, for any descriptor tree). So the call of
  \<^verbatim>\<open>useState\<close> at position \<open>i\<close> of the function \<open>f\<close> is at the slot \<open>(f, i)\<close> for
  every instance, and the hook \<open>(Some f, i)\<close> stands for the getter and the
  setter of each of them.

  A call of that setter with a value \<open>v\<close> other than \<^verbatim>\<open>undefined\<close>, the re-render
  included, returns with \<open>v\<close> in the slot (with the value that was there, if
  that is \<open>v\<close> by \<^verbatim>\<open>===\<close>), whether the re-render returns a node or throws
  (second conjunct). The next call of \<^verbatim>\<open>useState\<close> at that slot, by whichever
  instance and with whatever initial value, answers with the same hook and
  leaves the slot as it is, so that the instance's getter reads \<open>v\<close> (third
  conjunct). And of two instances that render for the first time, the second
  reads the initial value of the first, not its own (fourth conjunct). User code
  is taken not to write the slot again while the setter's render runs
  (\<open>hook_stable\<close>).
\<close>

theorem same_component_same_slots:
  assumes "hook_stable env (Some f, i)" and "v \<noteq> Undefined"
    and "setter n env (Some f, i) v s = Some (r, s')"
  shows "renderToDOM m (at_cursor env) descriptor t = renderToDOM m env descriptor t
         \<and> getter (Some f, i) s' = (if strict_eq (slot s (Some f, i)) v then slot s (Some f, i) else v)
         \<and> useState init (s'\<lparr>currentComponent := Some f, stateIndex := i\<rparr>)
             = ((Some f, i), s'\<lparr>currentComponent := Some f, stateIndex := i + 1\<rparr>)
         \<and> getter (Some f, i)
             (snd (useState init2 ((snd (useState init1 (t\<lparr>currentComponent := Some f, stateIndex := i\<rparr>)))
                                     \<lparr>currentComponent := Some f, stateIndex := i\<rparr>)))
             = (if slot t (Some f, i) = Undefined then (if init1 = Undefined then init2 else init1)
                else slot t (Some f, i))"
proof -
  have g: "slot s' (Some f, i) = (if strict_eq (slot s (Some f, i)) v then slot s (Some f, i) else v)"
    using setter_keeps_update [OF assms] .
  have "slot s' (Some f, i) \<noteq> Undefined"
    using g assms(2) strict_eq_defined [of "slot s (Some f, i)" v] by auto
  then have u: "useState init (s'\<lparr>currentComponent := Some f, stateIndex := i\<rparr>)
                = ((Some f, i), s'\<lparr>currentComponent := Some f, stateIndex := i + 1\<rparr>)"
    by (rule useState_defined_slot)
  show ?thesis
    using g u by (simp add: render_at_cursor getter_def useState_twice)
qed

text \<open>
  The example: two counters, with the initial counts \<open>3\<close> and \<open>7\<close>. Both show \<open>3\<close>
  after \<^verbatim>\<open>mount\<close> and both show \<open>5\<close> after the setter is called with \<open>5\<close>.
\<close>

theorem same_component_same_slots_witness:
  "mount 5 demo_env demo_pair_root 0 demo_pair_host = Some (Inr (), demo_pair_mounted)
   \<and> getter (Some 0, 0) demo_pair_mounted = Num 3
   \<and> nodeKind (nodes demo_pair_mounted ! 4) = TextNode ''3''
   \<and> nodeKind (nodes demo_pair_mounted ! 7) = TextNode ''3''
   \<and> setter 5 demo_env (Some 0, 0) (Num 5) demo_pair_mounted = Some (Inr (), demo_pair_updated)
   \<and> getter (Some 0, 0) demo_pair_updated = Num 5
   \<and> useState (Num 7) (demo_pair_updated\<lparr>currentComponent := Some 0, stateIndex := 0\<rparr>)
       = ((Some 0, 0), demo_pair_updated\<lparr>currentComponent := Some 0, stateIndex := 1\<rparr>)
   \<and> nodeKind (nodes demo_pair_updated ! 11) = TextNode ''5''
   \<and> nodeKind (nodes demo_pair_updated ! 14) = TextNode ''5''"
proof -
  have v: "Num 5 \<noteq> Undefined"
    by simp
  have s: "slot demo_pair_mounted (Some 0, 0) = Num 3"
    by (simp add: demo_pair_mounted_def init_rt_def slot_def js_read_def)
  have k: "nodeKind (nodes demo_pair_mounted ! 4) = TextNode ''3''"
    "nodeKind (nodes demo_pair_mounted ! 7) = TextNode ''3''"
    "nodeKind (nodes demo_pair_updated ! 11) = TextNode ''5''"
    "nodeKind (nodes demo_pair_updated ! 14) = TextNode ''5''"
    by (simp_all add: demo_pair_mounted_def demo_pair_updated_def pair_nodes_def init_rt_def
          text_node_def elem_def new_node_def eval_nat_numeral)
  show ?thesis
    using same_component_same_slots [where init = "Num 7", OF hook_stable_demo v update_pair]
      mount_pair update_pair s k
    by (simp add: getter_def)
qed

text \<open>
  C4 as stated fails for an update to \<^verbatim>\<open>undefined\<close>: the re-render takes the slot
  for one never written and \<^verbatim>\<open>useState\<close> of the first counter sets it to that
  counter's initial value, so that after the setter is called with \<^verbatim>\<open>undefined\<close>
  the getter reads \<open>3\<close> and both counters show \<open>3\<close>. It fails too where a
  component writes the slot while it renders: with the component that calls its
  setter with \<open>1\<close>, the getter reads \<open>1\<close> after the setter is called with \<open>5\<close>.
\<close>

theorem same_component_same_slots_counterexample:
  "mount 5 demo_env demo_pair_root 0 demo_pair_host = Some (Inr (), demo_pair_mounted)
   \<and> setter 5 demo_env (Some 0, 0) Undefined demo_pair_mounted = Some (Inr (), demo_pair_reset)
   \<and> getter (Some 0, 0) demo_pair_reset = Num 3
   \<and> nodeKind (nodes demo_pair_reset ! 11) = TextNode ''3''
   \<and> nodeKind (nodes demo_pair_reset ! 14) = TextNode ''3''
   \<and> mount 3 (eager_env 2) demo_eager_root 0 demo_host = Some (Inr (), demo_eager_mounted)
   \<and> setter 3 (eager_env 2) (Some 0, 0) (Num 5) demo_eager_mounted = Some (Inr (), demo_eager_updated)
   \<and> getter (Some 0, 0) demo_eager_updated = Num 1"
proof -
  have "getter (Some 0, 0) demo_pair_reset = Num 3" "getter (Some 0, 0) demo_eager_updated = Num 1"
    by (simp_all add: demo_pair_reset_def demo_eager_updated_def init_rt_def getter_def slot_def js_read_def)
  moreover have "nodeKind (nodes demo_pair_reset ! 11) = TextNode ''3''"
    "nodeKind (nodes demo_pair_reset ! 14) = TextNode ''3''"
    by (simp_all add: demo_pair_reset_def pair_nodes_def init_rt_def text_node_def elem_def new_node_def
          eval_nat_numeral)
  ultimately show ?thesis
    using mount_pair reset_pair mount_eager update_eager by simp
qed

end
